theory Spec2Isabelle
  imports Main "HOL-Library.Monad_Syntax"
begin

section \<open>Common vocabulary: JSON bodies and HTTP responses\<close>

text \<open>
  The handlers of the course answer with \<^verbatim>\<open>c.JSON(status, gin.H{...})\<close>. A body is a
  JSON value; a \<^verbatim>\<open>gin.H\<close> literal is an object whose members are listed in the order
  of the source. Go strings are byte strings, so the Chinese messages of the source are
  written here as their UTF-8 bytes; the gloss in each comment is a translation.
\<close>

datatype json =
    JString string
  | JNumber int
  | JStrings "string list"
  | JObject "(string \<times> json) list"

record response =
  status :: nat
  body :: json

definition StatusOK :: nat where "StatusOK = 200"
definition StatusBadRequest :: nat where "StatusBadRequest = 400"
definition StatusUnauthorized :: nat where "StatusUnauthorized = 401"
definition StatusForbidden :: nat where "StatusForbidden = 403"
definition StatusTooManyRequests :: nat where "StatusTooManyRequests = 429"

definition H_error :: "string \<Rightarrow> json" where
  \<comment> \<open>\<^verbatim>\<open>gin.H{"error": msg}\<close>\<close>
  "H_error msg = JObject [(''error'', JString msg)]"


section \<open>Registration and login with lockout (16, examples/03-register-login)\<close>

subsection \<open>State of the package\<close>

record User =
  ID :: nat
  Username :: string
  PasswordHash :: string
  Email :: string
  CreatedAt :: int

record LoginRequest =
  req_Username :: string
  req_Password :: string

text \<open>
  The package keeps two tables: \<^verbatim>\<open>users\<close> (\<^verbatim>\<open>map[string]*User\<close>) and
  \<^verbatim>\<open>loginAttempts\<close> (\<^verbatim>\<open>map[string]int\<close>). Each access is made under its mutex,
  so a handler is modelled as one sequential step on the pair of tables. The counter is a
  Go \<^verbatim>\<open>int\<close>; it is only ever incremented from a value below \<^verbatim>\<open>maxLoginAttempts\<close>,
  so it is modelled by an unbounded integer.
\<close>

record login_state =
  users :: "string \<rightharpoonup> User"
  loginAttempts :: "string \<rightharpoonup> int"

definition attempts :: "login_state \<Rightarrow> string \<Rightarrow> int" where
  \<comment> \<open>\<^verbatim>\<open>loginAttempts[username]\<close>: indexing a Go map gives the zero value for a missing key\<close>
  "attempts s username = (case loginAttempts s username of None \<Rightarrow> 0 | Some n \<Rightarrow> n)"

definition maxLoginAttempts :: int where
  "maxLoginAttempts = 5"

definition isLocked :: "login_state \<Rightarrow> string \<Rightarrow> bool" where
  "isLocked s username = (attempts s username \<ge> maxLoginAttempts)"

definition recordFailedLogin :: "string \<Rightarrow> login_state \<Rightarrow> login_state" where
  "recordFailedLogin username s =
     s\<lparr>loginAttempts := (loginAttempts s)(username \<mapsto> attempts s username + 1)\<rparr>"

definition clearFailedLogins :: "string \<Rightarrow> login_state \<Rightarrow> login_state" where
  "clearFailedLogins username s = s\<lparr>loginAttempts := (loginAttempts s)(username := None)\<rparr>"

subsection \<open>Password check\<close>

text \<open>
  \<^verbatim>\<open>bcrypt.CompareHashAndPassword\<close> belongs to \<^verbatim>\<open>golang.org/x/crypto\<close>, not to the
  repository. The handlers take it as a parameter: a function from the stored hash and
  the supplied password to an optional error (\<open>None\<close> is Go's \<^verbatim>\<open>nil\<close>).
\<close>

datatype bcrypt_error =
    ErrMismatchedHashAndPassword
  | ErrHashTooShort
  | ErrPasswordTooLong
  | InvalidCostError int
  | ErrEntropy

type_synonym compare_fn = "string \<Rightarrow> string \<Rightarrow> bcrypt_error option"

definition CheckPassword :: "compare_fn \<Rightarrow> string \<Rightarrow> string \<Rightarrow> bool" where
  "CheckPassword CompareHashAndPassword password hash =
     (CompareHashAndPassword hash password = None)"

subsection \<open>The login handler\<close>

definition msg_bad_params :: string where
  \<comment> \<open>"invalid parameters"\<close>
  "msg_bad_params = [CHR 0xE5, CHR 0x8F, CHR 0x82, CHR 0xE6, CHR 0x95, CHR 0xB0, CHR 0xE9, CHR 0x94, CHR 0x99, CHR 0xE8, CHR 0xAF, CHR 0xAF]"

definition msg_too_many_attempts :: string where
  \<comment> \<open>"too many login attempts, please try again later"\<close>
  "msg_too_many_attempts = [CHR 0xE7, CHR 0x99, CHR 0xBB, CHR 0xE5, CHR 0xBD, CHR 0x95, CHR 0xE5, CHR 0xB0, CHR 0x9D, CHR 0xE8, CHR 0xAF, CHR 0x95, CHR 0xE6, CHR 0xAC, CHR 0xA1, CHR 0xE6, CHR 0x95, CHR 0xB0, CHR 0xE8, CHR 0xBF, CHR 0x87, CHR 0xE5, CHR 0xA4, CHR 0x9A, CHR 0xEF, CHR 0xBC, CHR 0x8C, CHR 0xE8, CHR 0xAF, CHR 0xB7, CHR 0xE7, CHR 0xA8, CHR 0x8D, CHR 0xE5, CHR 0x90, CHR 0x8E, CHR 0xE5, CHR 0x86, CHR 0x8D, CHR 0xE8, CHR 0xAF, CHR 0x95]"

definition msg_bad_credentials :: string where
  \<comment> \<open>"user name or password wrong"\<close>
  "msg_bad_credentials = [CHR 0xE7, CHR 0x94, CHR 0xA8, CHR 0xE6, CHR 0x88, CHR 0xB7, CHR 0xE5, CHR 0x90, CHR 0x8D, CHR 0xE6, CHR 0x88, CHR 0x96, CHR 0xE5, CHR 0xAF, CHR 0x86, CHR 0xE7, CHR 0xA0, CHR 0x81, CHR 0xE9, CHR 0x94, CHR 0x99, CHR 0xE8, CHR 0xAF, CHR 0xAF]"

definition msg_login_ok :: string where
  \<comment> \<open>"login succeeded"\<close>
  "msg_login_ok = [CHR 0xE7, CHR 0x99, CHR 0xBB, CHR 0xE5, CHR 0xBD, CHR 0x95, CHR 0xE6, CHR 0x88, CHR 0x90, CHR 0xE5, CHR 0x8A, CHR 0x9F]"

definition ShouldBindJSON :: "LoginRequest option \<Rightarrow> LoginRequest option" where
  \<comment> \<open>The argument is the decoded request body (\<open>None\<close>: the body is not a JSON object of
      the right shape). Both fields carry \<^verbatim>\<open>binding:"required"\<close>, which rejects the
      zero value, the empty string.\<close>
  "ShouldBindJSON decoded =
     (case decoded of
        None \<Rightarrow> None
      | Some req \<Rightarrow>
          if req_Username req = [] \<or> req_Password req = [] then None else Some req)"

definition loginHandler ::
    "compare_fn \<Rightarrow> LoginRequest option \<Rightarrow> login_state \<Rightarrow> login_state \<times> response" where
  "loginHandler CompareHashAndPassword decoded s =
     (case ShouldBindJSON decoded of
        None \<Rightarrow> (s, \<lparr>status = StatusBadRequest, body = H_error msg_bad_params\<rparr>)
      | Some req \<Rightarrow>
          if isLocked s (req_Username req) then
            (s, \<lparr>status = StatusTooManyRequests, body = H_error msg_too_many_attempts\<rparr>)
          else
            (case users s (req_Username req) of
               None \<Rightarrow>
                 (recordFailedLogin (req_Username req) s,
                  \<lparr>status = StatusUnauthorized, body = H_error msg_bad_credentials\<rparr>)
             | Some user \<Rightarrow>
                 if \<not> CheckPassword CompareHashAndPassword (req_Password req) (PasswordHash user)
                 then
                   (recordFailedLogin (req_Username req) s,
                    \<lparr>status = StatusUnauthorized, body = H_error msg_bad_credentials\<rparr>)
                 else
                   (clearFailedLogins (req_Username req) s,
                    \<lparr>status = StatusOK,
                     body = JObject
                       [(''message'', JString msg_login_ok),
                        (''user'', JObject
                           [(''id'', JNumber (int (ID user))),
                            (''username'', JString (Username user)),
                            (''email'', JString (Email user))])]\<rparr>)))"

text \<open>A run of the endpoint on a sequence of requests, one after the other.\<close>

fun logins ::
    "compare_fn \<Rightarrow> LoginRequest option list \<Rightarrow> login_state \<Rightarrow> login_state \<times> response list"
  where
    "logins cmp [] s = (s, [])"
  | "logins cmp (r # rs) s =
       (case loginHandler cmp r s of
          (s', resp) \<Rightarrow> (case logins cmp rs s' of (s'', resps) \<Rightarrow> (s'', resp # resps)))"

text \<open>
  Concrete data for the instances below: a stand-in for bcrypt that stores a password
  behind a fixed prefix, and the user of the course's own test commands.
\<close>

definition demo_compare :: compare_fn where
  "demo_compare hash password =
     (if hash = ''$2a$10$'' @ password then None else Some ErrMismatchedHashAndPassword)"

definition tom :: User where
  "tom = \<lparr>ID = 1, Username = ''tom'', PasswordHash = ''$2a$10$Test@123456'',
          Email = ''tom@example.com'', CreatedAt = 0\<rparr>"

definition tom_state :: "int \<Rightarrow> login_state" where
  \<comment> \<open>tom is registered and has the given number of recorded failures\<close>
  "tom_state n = \<lparr>users = [''tom'' \<mapsto> tom], loginAttempts = [''tom'' \<mapsto> n]\<rparr>"

definition empty_state :: login_state where
  "empty_state = \<lparr>users = Map.empty, loginAttempts = Map.empty\<rparr>"

definition login_as :: "string \<Rightarrow> string \<Rightarrow> LoginRequest option" where
  "login_as u p = Some \<lparr>req_Username = u, req_Password = p\<rparr>"

section \<open>Hashing with a chosen cost (16, examples/01-hash-password and 02-verify-password)\<close>

text \<open>
  \<^verbatim>\<open>bcrypt.GenerateFromPassword\<close> and the constants \<^verbatim>\<open>bcrypt.MinCost\<close>,
  \<^verbatim>\<open>bcrypt.MaxCost\<close> and \<^verbatim>\<open>bcrypt.DefaultCost\<close> belong to
  \<^verbatim>\<open>golang.org/x/crypto\<close>. The constants have the library's values; the generator
  is a parameter of the functions that call it: a function from the password and the
  cost to an error or a hash (the salt it draws belongs to the call).
\<close>

definition MinCost :: int where "MinCost = 4"
definition MaxCost :: int where "MaxCost = 31"
definition DefaultCost :: int where "DefaultCost = 10"

type_synonym generate_fn = "string \<Rightarrow> int \<Rightarrow> bcrypt_error + string"

definition HashPassword :: "generate_fn \<Rightarrow> string \<Rightarrow> bcrypt_error + string" where
  "HashPassword GenerateFromPassword password =
     (case GenerateFromPassword password DefaultCost of
        Inl err \<Rightarrow> Inl err
      | Inr hash \<Rightarrow> Inr hash)"

definition HashPasswordWithCost :: "generate_fn \<Rightarrow> string \<Rightarrow> int \<Rightarrow> bcrypt_error + string" where
  "HashPasswordWithCost GenerateFromPassword password cost =
     (let cost = (if cost < MinCost \<or> cost > MaxCost then DefaultCost else cost)
      in case GenerateFromPassword password cost of
           Inl err \<Rightarrow> Inl err
         | Inr hash \<Rightarrow> Inr hash)"

record BcryptMatcher =
  cost :: int

definition NewBcryptMatcher :: "int \<Rightarrow> BcryptMatcher" where
  "NewBcryptMatcher c =
     (let c = (if c < MinCost \<or> c > MaxCost then DefaultCost else c)
      in \<lparr>cost = c\<rparr>)"

definition Hash :: "generate_fn \<Rightarrow> BcryptMatcher \<Rightarrow> string \<Rightarrow> bcrypt_error + string" where
  "Hash GenerateFromPassword m password = GenerateFromPassword password (cost m)"

text \<open>
  A stand-in generator for the instances below. It treats the cost as the library
  documents it (a cost below \<^verbatim>\<open>MinCost\<close> becomes the default, one above
  \<^verbatim>\<open>MaxCost\<close> is an \<^verbatim>\<open>InvalidCostError\<close>, a password of more than 72 bytes is
  refused) and, instead of a digest, returns the cost and the password.
\<close>

definition demo_generate :: generate_fn where
  "demo_generate password c =
     (if length password > 72 then Inl ErrPasswordTooLong
      else
        let c = (if c < MinCost then DefaultCost else c)
        in if c > MaxCost then Inl (InvalidCostError c)
           else Inr (''$2a$'' @ replicate (nat c) CHR ''*'' @ ''$'' @ password))"

section \<open>The handler chain of a request (gin)\<close>

subsection \<open>Context\<close>

text \<open>
  gin (\<^verbatim>\<open>github.com/gin-gonic/gin\<close>) is a dependency of the course, not part of it. What
  the handlers of the course use of a \<^verbatim>\<open>*gin.Context\<close> is modelled here: the request
  headers and query parameters, the key/value store of \<^verbatim>\<open>c.Set\<close> and \<^verbatim>\<open>c.Get\<close>, and
  the responses written with \<^verbatim>\<open>c.JSON\<close>. Two more fields record what a run does beside
  the context: the lines it prints with \<^verbatim>\<open>fmt.Println\<close>, and the token strings it
  hands to the token check (\<open>verified\<close>, a call log that no handler reads).
\<close>

datatype val =
    VUint nat
  | VInt int
  | VString string
  | VStrings "string list"

record Context =
  headers :: "string \<rightharpoonup> string"
  query :: "string \<rightharpoonup> string"
  Keys :: "string \<rightharpoonup> val"
  written :: "response list"
  stdout :: "string list"
  verified :: "string list"

definition GetHeader :: "Context \<Rightarrow> string \<Rightarrow> string" where
  \<comment> \<open>the empty string when the request has no such header\<close>
  "GetHeader c key = (case headers c key of None \<Rightarrow> [] | Some v \<Rightarrow> v)"

definition Query :: "Context \<Rightarrow> string \<Rightarrow> string" where
  "Query c key = (case query c key of None \<Rightarrow> [] | Some v \<Rightarrow> v)"

definition Set :: "string \<Rightarrow> val \<Rightarrow> Context \<Rightarrow> Context" where
  "Set key v c = c\<lparr>Keys := (Keys c)(key \<mapsto> v)\<rparr>"

definition Get :: "Context \<Rightarrow> string \<Rightarrow> val option" where
  \<comment> \<open>\<^verbatim>\<open>value, exists := c.Get(key)\<close>: \<open>None\<close> when the key does not exist\<close>
  "Get c key = Keys c key"

definition GetStringSlice :: "Context \<Rightarrow> string \<Rightarrow> string list" where
  \<comment> \<open>\<^verbatim>\<open>nil\<close> when the key is missing or its value is not a \<^verbatim>\<open>[]string\<close>\<close>
  "GetStringSlice c key = (case Keys c key of Some (VStrings xs) \<Rightarrow> xs | _ \<Rightarrow> [])"

definition JSON :: "nat \<Rightarrow> json \<Rightarrow> Context \<Rightarrow> Context" where
  "JSON code obj c = c\<lparr>written := written c @ [\<lparr>status = code, body = obj\<rparr>]\<rparr>"

definition Println :: "string \<Rightarrow> Context \<Rightarrow> Context" where
  "Println line c = c\<lparr>stdout := stdout c @ [line]\<rparr>"

subsection \<open>Handlers and the chain\<close>

text \<open>
  A handler is Go code over the context that may call \<^verbatim>\<open>c.Next()\<close> or \<^verbatim>\<open>c.Abort()\<close>.
  Its model says which of the three it does, as every handler of the course does one of
  them: it returns without either (\<open>Return\<close>, with the context it leaves); it calls
  \<^verbatim>\<open>c.Abort()\<close> (\<open>Aborted\<close>); or it calls \<^verbatim>\<open>c.Next()\<close> (\<open>CallNext\<close>). The last
  two carry the context at the call and the rest of the handler's code, which runs after
  the call has returned.
\<close>

datatype 'c step =
    Return 'c
  | Aborted 'c "'c \<Rightarrow> 'c"
  | CallNext 'c "'c \<Rightarrow> 'c"

type_synonym 'c HandlerFunc = "'c \<Rightarrow> 'c step"

definition AbortWithStatusJSON ::
    "nat \<Rightarrow> json \<Rightarrow> Context \<Rightarrow> (Context \<Rightarrow> Context) \<Rightarrow> Context step" where
  \<comment> \<open>\<^verbatim>\<open>c.Abort(); c.JSON(code, jsonObj)\<close>, followed by the rest of the handler\<close>
  "AbortWithStatusJSON code obj c rest = Aborted c (\<lambda>c. rest (JSON code obj c))"

text \<open>
  What a run of the chain does, in order: handler \<open>i\<close> is invoked; it calls
  \<^verbatim>\<open>c.Abort()\<close>; it calls \<^verbatim>\<open>c.Next()\<close>; its call of \<^verbatim>\<open>c.Abort()\<close> or
  \<^verbatim>\<open>c.Next()\<close> has returned and the rest of its code runs.
\<close>

datatype event =
    Enter nat
  | Abort nat
  | Proceed nat
  | Resume nat

definition abortIndex :: int where
  \<comment> \<open>\<^verbatim>\<open>math.MaxInt8 >> 1\<close>\<close>
  "abortIndex = 63"

text \<open>
  \<^verbatim>\<open>Context.Next\<close> is
  \<^verbatim>\<open>c.index++; for c.index < len(c.handlers) { c.handlers[c.index](c); c.index++ }\<close>
  and \<^verbatim>\<open>Context.Abort\<close> is \<^verbatim>\<open>c.index = abortIndex\<close>. \<open>Next_loop hs i c\<close> is the
  \<^verbatim>\<open>for\<close> loop entered with index \<open>i\<close>; it returns the index and the context at the
  exit of the loop, and the events of the loop. A handler that calls \<^verbatim>\<open>c.Next()\<close> runs
  the loop again from the next index, inside its own call. gin refuses to register a
  chain of \<open>abortIndex\<close> handlers or more (it panics with "too many handlers"), so the
  loop is entered for shorter chains only. The index is an \<^verbatim>\<open>int8\<close>; for such chains
  it stays in the range of one (\<open>index_fits_int8\<close> below), so it is modelled by an
  integer.
\<close>

function Next_loop :: "'c HandlerFunc list \<Rightarrow> int \<Rightarrow> 'c \<Rightarrow> int \<times> 'c \<times> event list" where
  "Next_loop hs i c =
     (if 0 \<le> i \<and> i < int (length hs) \<and> int (length hs) < abortIndex then
        (case (hs ! nat i) c of
           Return c' \<Rightarrow>
             (case Next_loop hs (i + 1) c' of
                (j, c'', t) \<Rightarrow> (j, c'', Enter (nat i) # t))
         | Aborted c' post \<Rightarrow>
             (case Next_loop hs (abortIndex + 1) (post c') of
                (j, c'', t) \<Rightarrow>
                  (j, c'', Enter (nat i) # Abort (nat i) # Resume (nat i) # t))
         | CallNext c1 post \<Rightarrow>
             (case Next_loop hs (i + 1) c1 of
                (j, c2, t1) \<Rightarrow>
                  (case Next_loop hs (j + 1) (post c2) of
                     (j', c3, t2) \<Rightarrow>
                       (j', c3, Enter (nat i) # Proceed (nat i) # t1 @ Resume (nat i) # t2))))
      else (i, c, []))"
  by pat_completeness auto

lemma Next_loop_index_mono:
  "Next_loop_dom (hs, i, c) \<Longrightarrow> i \<le> fst (Next_loop hs i c)"
proof (induction hs i c rule: Next_loop.pinduct)
  case (1 hs i c)
  show ?case
  proof (cases "0 \<le> i \<and> i < int (length hs) \<and> int (length hs) < abortIndex")
    case False
    have "Next_loop hs i c = (i, c, [])"
      by (subst Next_loop.psimps [OF "1.hyps"]) (simp only: False if_False)
    then show ?thesis by simp
  next
    case True
    show ?thesis
    proof (cases "(hs ! nat i) c")
      case (Return c')
      obtain j c'' t where r: "Next_loop hs (i + 1) c' = (j, c'', t)"
        by (cases "Next_loop hs (i + 1) c'") auto
      from "1.IH"(1) [OF True Return] r have "i + 1 \<le> j" by simp
      with True Return r show ?thesis
        by (simp add: Next_loop.psimps [OF "1.hyps"])
    next
      case (Aborted c' post)
      obtain j c'' t where r: "Next_loop hs (abortIndex + 1) (post c') = (j, c'', t)"
        by (cases "Next_loop hs (abortIndex + 1) (post c')") auto
      from "1.IH"(2) [OF True Aborted] r have "abortIndex + 1 \<le> j" by simp
      with True Aborted r show ?thesis
        by (simp add: Next_loop.psimps [OF "1.hyps"])
    next
      case (CallNext c1 post)
      obtain j c2 t1 where r1: "Next_loop hs (i + 1) c1 = (j, c2, t1)"
        by (cases "Next_loop hs (i + 1) c1") auto
      from "1.IH"(3) [OF True CallNext] r1 have j: "i + 1 \<le> j" by simp
      obtain j' c3 t2 where r2: "Next_loop hs (j + 1) (post c2) = (j', c3, t2)"
        by (cases "Next_loop hs (j + 1) (post c2)") auto
      from "1.IH"(4) [OF True CallNext r1 [symmetric] refl] r2
      have "j + 1 \<le> j'" by simp
      with True CallNext r1 r2 j show ?thesis
        by (simp add: Next_loop.psimps [OF "1.hyps"])
    qed
  qed
qed

termination Next_loop
proof (relation "measure (\<lambda>(hs, i, c). nat (int (length hs) - i))", goal_cases)
  case 1
  show ?case by simp
next
  case (2 hs i c c')
  then show ?case by simp
next
  case (3 hs i c c' post)
  then show ?case by (simp add: abortIndex_def)
next
  case (4 hs i c c1 post)
  then show ?case by simp
next
  case (5 hs i c c1 post j rest c2 t1)
  from Next_loop_index_mono [OF 5(5)] 5(3) have "i + 1 \<le> j"
    by (metis fst_conv)
  with 5(1) show ?case by simp
qed

declare Next_loop.simps [simp del]

definition Next :: "'c HandlerFunc list \<Rightarrow> int \<Rightarrow> 'c \<Rightarrow> int \<times> 'c \<times> event list" where
  \<comment> \<open>\<^verbatim>\<open>c.Next()\<close> called with \<^verbatim>\<open>c.index = i\<close>\<close>
  "Next hs i c = Next_loop hs (i + 1) c"

definition handleHTTPRequest :: "'c HandlerFunc list \<Rightarrow> 'c \<Rightarrow> int \<times> 'c \<times> event list" where
  \<comment> \<open>the engine serves a request: the context is reset (\<^verbatim>\<open>c.index = -1\<close>) and
      \<^verbatim>\<open>c.Next()\<close> runs the chain of the route\<close>
  "handleHTTPRequest hs c = Next hs (- 1) c"

definition IsAborted :: "int \<times> 'c \<times> event list \<Rightarrow> bool" where
  \<comment> \<open>\<^verbatim>\<open>c.index >= abortIndex\<close>, on the result of a run\<close>
  "IsAborted r = (fst r \<ge> abortIndex)"

definition ctx_of :: "int \<times> 'c \<times> event list \<Rightarrow> 'c" where
  "ctx_of r = fst (snd r)"

definition trace_of :: "int \<times> 'c \<times> event list \<Rightarrow> event list" where
  "trace_of r = snd (snd r)"

fun handler_of :: "event \<Rightarrow> nat" where
  "handler_of (Enter i) = i"
| "handler_of (Abort i) = i"
| "handler_of (Proceed i) = i"
| "handler_of (Resume i) = i"

definition after_abort :: "nat \<Rightarrow> event list \<Rightarrow> event list" where
  \<comment> \<open>the events of a run from the abort of handler \<open>k\<close> on\<close>
  "after_abort k t = dropWhile (\<lambda>e. e \<noteq> Abort k) t"

definition request :: Context where
  \<comment> \<open>a request without headers or query parameters, before any handler has run\<close>
  "request = \<lparr>headers = Map.empty, query = Map.empty, Keys = Map.empty,
     written = [], stdout = [], verified = []\<rparr>"

section \<open>The order of a middleware chain (08, examples/04-middleware-chain)\<close>

definition H_message_terminated :: json where
  \<comment> \<open>\<^verbatim>\<open>gin.H{"message": ...}\<close>, "the request was terminated"\<close>
  "H_message_terminated = JObject [(''message'', JString ([CHR 0xE8, CHR 0xAF, CHR 0xB7, CHR 0xE6, CHR 0xB1, CHR 0x82, CHR 0xE8, CHR 0xA2, CHR 0xAB, CHR 0xE7, CHR 0xBB, CHR 0x88, CHR 0xE6, CHR 0xAD, CHR 0xA2]))]"

definition H_message_OK :: json where
  "H_message_OK = JObject [(''message'', JString ''OK'')]"

definition Middleware1 :: "Context HandlerFunc" where
  "Middleware1 c =
     (let c = Println ([CHR 0xE2, CHR 0x86, CHR 0x92] @ '' M1 '' @ [CHR 0xE8, CHR 0xBF, CHR 0x9B, CHR 0xE5, CHR 0x85, CHR 0xA5]) c
      in CallNext c (\<lambda>c. Println ([CHR 0xE2, CHR 0x86, CHR 0x90] @ '' M1 '' @ [CHR 0xE9, CHR 0x80, CHR 0x80, CHR 0xE5, CHR 0x87, CHR 0xBA]) c))"

definition Middleware2 :: "Context HandlerFunc" where
  "Middleware2 c =
     (let c = Println (''  '' @ [CHR 0xE2, CHR 0x86, CHR 0x92] @ '' M2 '' @ [CHR 0xE8, CHR 0xBF, CHR 0x9B, CHR 0xE5, CHR 0x85, CHR 0xA5]) c
      in if Query c ''abort'' = ''true'' then
           (let c = Println (''  '' @ [CHR 0xE2, CHR 0x9C, CHR 0x97] @ '' M2 '' @ [CHR 0xE7, CHR 0xBB, CHR 0x88, CHR 0xE6, CHR 0xAD, CHR 0xA2, CHR 0xE8, CHR 0xAF, CHR 0xB7, CHR 0xE6, CHR 0xB1, CHR 0x82]) c
            in AbortWithStatusJSON StatusBadRequest H_message_terminated c
                 (\<lambda>c. Println (''  '' @ [CHR 0xE2, CHR 0x86, CHR 0x90] @ '' M2 '' @ [CHR 0xE9, CHR 0x80, CHR 0x80, CHR 0xE5, CHR 0x87, CHR 0xBA, CHR 0xEF, CHR 0xBC, CHR 0x88] @ ''Abort '' @ [CHR 0xE5, CHR 0x90, CHR 0x8E, CHR 0xEF, CHR 0xBC, CHR 0x89]) c))
         else CallNext c (\<lambda>c. Println (''  '' @ [CHR 0xE2, CHR 0x86, CHR 0x90] @ '' M2 '' @ [CHR 0xE9, CHR 0x80, CHR 0x80, CHR 0xE5, CHR 0x87, CHR 0xBA]) c))"

definition Middleware3 :: "Context HandlerFunc" where
  "Middleware3 c =
     (let c = Println (''    '' @ [CHR 0xE2, CHR 0x86, CHR 0x92] @ '' M3 '' @ [CHR 0xE8, CHR 0xBF, CHR 0x9B, CHR 0xE5, CHR 0x85, CHR 0xA5]) c
      in CallNext c (\<lambda>c. Println (''    '' @ [CHR 0xE2, CHR 0x86, CHR 0x90] @ '' M3 '' @ [CHR 0xE9, CHR 0x80, CHR 0x80, CHR 0xE5, CHR 0x87, CHR 0xBA]) c))"

definition handler_root :: "Context HandlerFunc" where
  \<comment> \<open>the handler of \<^verbatim>\<open>GET /\<close>\<close>
  "handler_root c =
     (let c = Println (''>>> Handler '' @ [CHR 0xE6, CHR 0x89, CHR 0xA7, CHR 0xE8, CHR 0xA1, CHR 0x8C]) c
      in Return (JSON StatusOK H_message_OK c))"

definition handler_abort :: "Context HandlerFunc" where
  \<comment> \<open>the handler of \<^verbatim>\<open>GET /abort\<close>; its line says "this should not be seen"\<close>
  "handler_abort c =
     (let c = Println (''>>> Handler '' @ [CHR 0xE6, CHR 0x89, CHR 0xA7, CHR 0xE8, CHR 0xA1, CHR 0x8C, CHR 0xEF, CHR 0xBC, CHR 0x88, CHR 0xE4, CHR 0xB8, CHR 0x8D, CHR 0xE5, CHR 0xBA, CHR 0x94, CHR 0xE8, CHR 0xAF, CHR 0xA5, CHR 0xE7, CHR 0x9C, CHR 0x8B, CHR 0xE5, CHR 0x88, CHR 0xB0, CHR 0xE8, CHR 0xBF, CHR 0x99, CHR 0xE6, CHR 0x9D, CHR 0xA1, CHR 0xEF, CHR 0xBC, CHR 0x89]) c
      in Return (JSON StatusOK H_message_OK c))"

definition chain_root :: "Context HandlerFunc list" where
  \<comment> \<open>\<^verbatim>\<open>r.Use(Middleware1()); r.Use(Middleware2()); r.Use(Middleware3())\<close>, then the route\<close>
  "chain_root = [Middleware1, Middleware2, Middleware3, handler_root]"

definition chain_abort :: "Context HandlerFunc list" where
  "chain_abort = [Middleware1, Middleware2, Middleware3, handler_abort]"

definition request_abort :: Context where
  \<comment> \<open>\<^verbatim>\<open>GET /abort?abort=true\<close>\<close>
  "request_abort = request\<lparr>query := [''abort'' \<mapsto> ''true'']\<rparr>"

section \<open>Signed tokens (15, examples/01-jwt-basics and 02-gin-auth)\<close>

subsection \<open>The token library\<close>

text \<open>
  The course issues and checks tokens with \<^verbatim>\<open>github.com/golang-jwt/jwt/v5\<close>, which is
  not part of the repository. This subsection models the part of the library that the
  course calls, after the library's documented behaviour, with two abstractions.
  \<^item> A token string is modelled by what the library's parser reads in it: its three
    segments decoded (the \<^verbatim>\<open>alg\<close> member of the header, the claims that the JSON of
    the second segment decodes to, the signature), or nothing when the string is not
    three decodable segments. Issuing a token therefore computes the JSON that the
    library writes for the claims and what the parser decodes from it; base64url, which
    is one to one, is not modelled.
  \<^item> A signature is a symbolic value: the HMAC of a signing input (header and claims)
    under a key and a hash, or some other byte string. An HMAC check succeeds exactly on
    the HMAC of the same input under the same key and hash.

  Instants are nanoseconds since the Unix epoch; a \<^verbatim>\<open>NumericDate\<close> is an instant cut
  down to a whole second.
\<close>

definition Second :: int where "Second = 1000000000"
definition Hour :: int where "Hour = 3600 * Second"

definition NewNumericDate :: "int \<Rightarrow> int" where
  \<comment> \<open>\<^verbatim>\<open>t.Truncate(TimePrecision)\<close> with \<^verbatim>\<open>TimePrecision = time.Second\<close>\<close>
  "NewNumericDate t = t - t mod Second"

record RegisteredClaims =
  Issuer :: string
  Subject :: string
  Audience :: "string list"
  ExpiresAt :: "int option"
  NotBefore :: "int option"
  IssuedAt :: "int option"
  TokenID :: string

datatype SigningMethod =
    SigningMethodHMAC string nat
  | SigningMethodRSA string nat
  | SigningMethodRSAPSS string nat
  | SigningMethodECDSA string nat
  | SigningMethodEd25519
  | SigningMethodNone

definition SigningMethodHS256 :: SigningMethod where
  "SigningMethodHS256 = SigningMethodHMAC ''HS256'' 256"

definition signingMethods :: "(string \<times> SigningMethod) list" where
  \<comment> \<open>the methods the library registers, by the name a header gives in \<^verbatim>\<open>alg\<close>\<close>
  "signingMethods =
     [(''HS256'', SigningMethodHMAC ''HS256'' 256),
      (''HS384'', SigningMethodHMAC ''HS384'' 384),
      (''HS512'', SigningMethodHMAC ''HS512'' 512),
      (''RS256'', SigningMethodRSA ''RS256'' 256),
      (''RS384'', SigningMethodRSA ''RS384'' 384),
      (''RS512'', SigningMethodRSA ''RS512'' 512),
      (''PS256'', SigningMethodRSAPSS ''PS256'' 256),
      (''PS384'', SigningMethodRSAPSS ''PS384'' 384),
      (''PS512'', SigningMethodRSAPSS ''PS512'' 512),
      (''ES256'', SigningMethodECDSA ''ES256'' 256),
      (''ES384'', SigningMethodECDSA ''ES384'' 384),
      (''ES512'', SigningMethodECDSA ''ES512'' 512),
      (''EdDSA'', SigningMethodEd25519),
      (''none'', SigningMethodNone)]"

definition GetSigningMethod :: "string \<Rightarrow> SigningMethod option" where
  "GetSigningMethod alg = map_of signingMethods alg"

fun Alg :: "SigningMethod \<Rightarrow> string" where
  "Alg (SigningMethodHMAC name bits) = name"
| "Alg (SigningMethodRSA name bits) = name"
| "Alg (SigningMethodRSAPSS name bits) = name"
| "Alg (SigningMethodECDSA name bits) = name"
| "Alg SigningMethodEd25519 = ''EdDSA''"
| "Alg SigningMethodNone = ''none''"

fun is_HMAC :: "SigningMethod \<Rightarrow> bool" where
  \<comment> \<open>the type assertion \<^verbatim>\<open>token.Method.(*jwt.SigningMethodHMAC)\<close>\<close>
  "is_HMAC (SigningMethodHMAC name bits) = True"
| "is_HMAC m = False"

datatype 'c signature =
    HMAC_SHA nat string "string option" 'c
  | OtherSignature string

datatype 'c token_string =
    Segments "string option" 'c "'c signature"
  | Malformed

record 'c Token =
  Method :: SigningMethod
  HeaderAlg :: "string option"
  TokenClaims :: 'c
  Signature :: "'c signature"
  Valid :: bool

datatype sig_error =
    ErrInvalidKeyType
  | ErrSignatureInvalid
  | NoneSignatureTypeDisallowedError

datatype claims_error =
    ErrTokenExpired
  | ErrTokenNotValidYet

datatype keyfunc_error =
    UnexpectedSigningMethod "string option"

datatype jwt_error =
    ErrTokenMalformed
  | ErrTokenUnverifiable
  | ErrTokenSignatureInvalid sig_error
  | ErrTokenInvalidClaims "claims_error list"
  | PlainError sig_error
  | InvalidToken

type_synonym 'c Keyfunc = "'c Token \<Rightarrow> keyfunc_error + string"

text \<open>
  \<^verbatim>\<open>Sign\<close> and \<^verbatim>\<open>Verify\<close> of a signing method, for a key that is a \<^verbatim>\<open>[]byte\<close>, which
  is what both key functions of the course return. Only the HMAC methods take such a
  key: the RSA, ECDSA and Ed25519 methods assert a key type of their own and fail with
  \<^verbatim>\<open>ErrInvalidKeyType\<close>; the method \<^verbatim>\<open>none\<close> wants the constant
  \<^verbatim>\<open>UnsafeAllowNoneSignatureType\<close>.
\<close>

fun Sign :: "SigningMethod \<Rightarrow> string option \<Rightarrow> 'c \<Rightarrow> string \<Rightarrow> sig_error + 'c signature" where
  "Sign (SigningMethodHMAC name bits) alg claims key = Inr (HMAC_SHA bits key alg claims)"
| "Sign SigningMethodNone alg claims key = Inl NoneSignatureTypeDisallowedError"
| "Sign m alg claims key = Inl ErrInvalidKeyType"

fun Verify ::
    "SigningMethod \<Rightarrow> string option \<Rightarrow> 'c \<Rightarrow> 'c signature \<Rightarrow> string \<Rightarrow> sig_error option" where
  "Verify (SigningMethodHMAC name bits) alg claims sig key =
     (if sig = HMAC_SHA bits key alg claims then None else Some ErrSignatureInvalid)"
| "Verify SigningMethodNone alg claims sig key = Some NoneSignatureTypeDisallowedError"
| "Verify m alg claims sig key = Some ErrInvalidKeyType"

definition Validate :: "int \<Rightarrow> 'a RegisteredClaims_scheme \<Rightarrow> claims_error list" where
  \<comment> \<open>the default validator at the instant \<open>now\<close>: \<^verbatim>\<open>exp\<close> and \<^verbatim>\<open>nbf\<close> are checked
      when present (\<^verbatim>\<open>now.Before(exp)\<close>, \<^verbatim>\<open>!now.Before(nbf)\<close>), \<^verbatim>\<open>iat\<close> is not\<close>
  "Validate now claims =
     (case ExpiresAt claims of
        None \<Rightarrow> []
      | Some exp \<Rightarrow> if now < exp then [] else [ErrTokenExpired]) @
     (case NotBefore claims of
        None \<Rightarrow> []
      | Some nbf \<Rightarrow> if now < nbf then [ErrTokenNotValidYet] else [])"

subsection \<open>The JSON coding of the claims\<close>

text \<open>
  \<^verbatim>\<open>SignedString\<close> writes the claims with \<^verbatim>\<open>encoding/json\<close>, and the parser reads them
  back with it. A \<open>json\<close> value stands for what a JSON text denotes; the escapes that the
  encoder writes (quotes, control characters, \<^verbatim>\<open><\<close>, \<^verbatim>\<open>>\<close>, \<^verbatim>\<open>&\<close>) denote the
  characters they stand for. Two steps of the coding change a value.
  \<^item> A Go string is any byte string, a JSON string is text. The encoder walks the string
    with \<^verbatim>\<open>utf8.DecodeRuneInString\<close>: a well-formed UTF-8 sequence is copied, and a byte
    that begins none is written as U+FFFD, the bytes EF BF BD, and stepped over alone.
    \<open>rune_width\<close> is the width of the well-formed sequence at the head of a byte string,
    or 0: one byte below 80; two to four bytes for a leading byte C2..F4, where the
    second byte is confined so as to exclude over-long forms, the surrogates and the
    values above U+10FFFF.
  \<^item> A \<^verbatim>\<open>NumericDate\<close> is written as its whole seconds in decimal and read through a
    \<^verbatim>\<open>float64\<close> (\<^verbatim>\<open>json.Number.Float64\<close>, then \<^verbatim>\<open>time.Unix\<close> of the integral part):
    an integer of more than 53 significant bits is rounded to 53 bits, ties to even.
\<close>

definition RuneError :: string where
  \<comment> \<open>U+FFFD in UTF-8\<close>
  "RuneError = [CHR 0xEF, CHR 0xBF, CHR 0xBD]"

definition is_cont :: "nat \<Rightarrow> bool" where
  "is_cont b = (0x80 \<le> b \<and> b \<le> 0xBF)"

fun rune_width :: "nat list \<Rightarrow> nat" where
  "rune_width [] = 0"
| "rune_width (b0 # bs) =
     (if b0 < 0x80 then 1
      else if 0xC2 \<le> b0 \<and> b0 \<le> 0xDF then
        (case bs of
           b1 # _ \<Rightarrow> if is_cont b1 then 2 else 0
         | _ \<Rightarrow> 0)
      else if 0xE0 \<le> b0 \<and> b0 \<le> 0xEF then
        (case bs of
           b1 # b2 # _ \<Rightarrow>
             if (if b0 = 0xE0 then 0xA0 else 0x80) \<le> b1 \<and>
                b1 \<le> (if b0 = 0xED then 0x9F else 0xBF) \<and> is_cont b2
             then 3 else 0
         | _ \<Rightarrow> 0)
      else if 0xF0 \<le> b0 \<and> b0 \<le> 0xF4 then
        (case bs of
           b1 # b2 # b3 # _ \<Rightarrow>
             if (if b0 = 0xF0 then 0x90 else 0x80) \<le> b1 \<and>
                b1 \<le> (if b0 = 0xF4 then 0x8F else 0xBF) \<and> is_cont b2 \<and> is_cont b3
             then 4 else 0
         | _ \<Rightarrow> 0)
      else 0)"

fun replace_invalid :: "nat \<Rightarrow> string \<Rightarrow> string" where
  \<comment> \<open>the encoder's loop over a string; \<open>k\<close> bytes of a sequence already found
      well-formed are still to be copied\<close>
  "replace_invalid k [] = []"
| "replace_invalid k (c # cs) =
     (if 0 < k then c # replace_invalid (k - 1) cs
      else
        (let w = rune_width (map of_char (take 4 (c # cs)))
         in if w = 0 then RuneError @ replace_invalid 0 cs
            else c # replace_invalid (w - 1) cs))"

definition ToValidUTF8 :: "string \<Rightarrow> string" where
  \<comment> \<open>the text that the encoder writes for a Go string\<close>
  "ToValidUTF8 s = replace_invalid 0 s"

definition ValidString :: "string \<Rightarrow> bool" where
  \<comment> \<open>\<^verbatim>\<open>utf8.ValidString\<close>: nothing is replaced\<close>
  "ValidString s = (ToValidUTF8 s = s)"

fun bit_len :: "nat \<Rightarrow> nat" where
  \<comment> \<open>the number of significant bits\<close>
  "bit_len n = (if n = 0 then 0 else Suc (bit_len (n div 2)))"

declare bit_len.simps [simp del]

definition float64_of_int :: "int \<Rightarrow> int" where
  \<comment> \<open>the \<^verbatim>\<open>float64\<close> nearest to an integer, as an integer: the \<open>e\<close> bits beyond the
      53 of the significand are rounded off, to the nearest, ties to the even significand\<close>
  "float64_of_int n =
     (let a = nat \<bar>n\<bar>;
          e = bit_len a - 53;
          q = a div 2 ^ e;
          r = a mod 2 ^ e;
          m = (if 2 ^ e < 2 * r \<or> (2 ^ e = 2 * r \<and> odd q) then q + 1 else q)
      in sgn n * int (m * 2 ^ e))"

definition Marshal_string :: "string \<Rightarrow> json" where
  "Marshal_string s = JString (ToValidUTF8 s)"

definition Marshal_NumericDate :: "int \<Rightarrow> json" where
  \<comment> \<open>\<^verbatim>\<open>MarshalJSON\<close> with \<^verbatim>\<open>TimePrecision = time.Second\<close>: \<^verbatim>\<open>Unix()\<close> of the
      truncated date\<close>
  "Marshal_NumericDate t = JNumber (NewNumericDate t div Second)"

definition omitempty :: "string \<Rightarrow> bool \<Rightarrow> json \<Rightarrow> (string \<times> json) list" where
  "omitempty name zero j = (if zero then [] else [(name, j)])"

definition Marshal_RegisteredClaims :: "'a RegisteredClaims_scheme \<Rightarrow> (string \<times> json) list" where
  \<comment> \<open>the members of \<^verbatim>\<open>jwt.RegisteredClaims\<close>, every one tagged \<^verbatim>\<open>omitempty\<close>; the
      audience is written as an array (\<^verbatim>\<open>MarshalSingleStringAsArray\<close>)\<close>
  "Marshal_RegisteredClaims c =
     omitempty ''iss'' (Issuer c = []) (Marshal_string (Issuer c)) @
     omitempty ''sub'' (Subject c = []) (Marshal_string (Subject c)) @
     omitempty ''aud'' (Audience c = []) (JStrings (map ToValidUTF8 (Audience c))) @
     (case ExpiresAt c of None \<Rightarrow> [] | Some t \<Rightarrow> [(''exp'', Marshal_NumericDate t)]) @
     (case NotBefore c of None \<Rightarrow> [] | Some t \<Rightarrow> [(''nbf'', Marshal_NumericDate t)]) @
     (case IssuedAt c of None \<Rightarrow> [] | Some t \<Rightarrow> [(''iat'', Marshal_NumericDate t)]) @
     omitempty ''jti'' (TokenID c = []) (Marshal_string (TokenID c))"

text \<open>
  Reading a member into a field: an absent member leaves the zero value of the field, a
  member of another JSON type is an error. The readers below are applied to the objects
  that the encoder above writes, in which every name occurs once, spelt as in the tag.
\<close>

fun Unmarshal_string :: "json option \<Rightarrow> string option" where
  "Unmarshal_string None = Some []"
| "Unmarshal_string (Some (JString s)) = Some s"
| "Unmarshal_string (Some j) = None"

fun Unmarshal_uint :: "json option \<Rightarrow> nat option" where
  \<comment> \<open>the width of \<^verbatim>\<open>uint\<close> is the platform's; it is not modelled\<close>
  "Unmarshal_uint None = Some 0"
| "Unmarshal_uint (Some (JNumber n)) = (if 0 \<le> n then Some (nat n) else None)"
| "Unmarshal_uint (Some j) = None"

fun Unmarshal_ClaimStrings :: "json option \<Rightarrow> string list option" where
  "Unmarshal_ClaimStrings None = Some []"
| "Unmarshal_ClaimStrings (Some (JString s)) = Some [s]"
| "Unmarshal_ClaimStrings (Some (JStrings ss)) = Some ss"
| "Unmarshal_ClaimStrings (Some j) = None"

fun Unmarshal_NumericDate :: "json option \<Rightarrow> int option option" where
  \<comment> \<open>\<^verbatim>\<open>newNumericDateFromSeconds(f)\<close> for the \<^verbatim>\<open>float64\<close> \<open>f\<close> of the number\<close>
  "Unmarshal_NumericDate None = Some None"
| "Unmarshal_NumericDate (Some (JNumber s)) =
     Some (Some (NewNumericDate (float64_of_int s * Second)))"
| "Unmarshal_NumericDate (Some j) = None"

subsection \<open>Issuing and parsing\<close>

definition NewWithClaims :: "SigningMethod \<Rightarrow> 'c \<Rightarrow> 'c Token" where
  "NewWithClaims method claims =
     \<lparr>Method = method, HeaderAlg = Some (Alg method), TokenClaims = claims,
      Signature = OtherSignature [], Valid = False\<rparr>"

text \<open>
  \<^verbatim>\<open>SignedString\<close> encodes the claims by reflection on their type; here the encoder
  and the decoder of the type of the claims are arguments. The string it returns is the
  one in which a parser reads the claims that the written JSON decodes to, and no claims
  at all if that JSON does not decode into the type.
\<close>

definition SignedString ::
    "('c \<Rightarrow> json) \<Rightarrow> (json \<Rightarrow> 'c option) \<Rightarrow> 'c Token \<Rightarrow> string
      \<Rightarrow> jwt_error + 'c token_string" where
  "SignedString marshal unmarshal token key =
     (case unmarshal (marshal (TokenClaims token)) of
        None \<Rightarrow>
          (case Sign (Method token) (HeaderAlg token) (TokenClaims token) key of
             Inl err \<Rightarrow> Inl (PlainError err)
           | Inr sig \<Rightarrow> Inr Malformed)
      | Some decoded \<Rightarrow>
          (case Sign (Method token) (HeaderAlg token) decoded key of
             Inl err \<Rightarrow> Inl (PlainError err)
           | Inr sig \<Rightarrow> Inr (Segments (HeaderAlg token) decoded sig)))"

definition ParseWithClaims ::
    "int \<Rightarrow> ('a RegisteredClaims_scheme) token_string \<Rightarrow> ('a RegisteredClaims_scheme) Keyfunc
      \<Rightarrow> jwt_error + ('a RegisteredClaims_scheme) Token" where
  \<comment> \<open>the parser without options, at the instant \<open>now\<close>: the segments are decoded and the
      method looked up by the header's \<^verbatim>\<open>alg\<close>; the key function gives the key; the
      method verifies the signature; the claims are validated\<close>
  "ParseWithClaims now tokenString keyFunc =
     (case tokenString of
        Malformed \<Rightarrow> Inl ErrTokenMalformed
      | Segments alg claims sig \<Rightarrow>
          (case alg of
             None \<Rightarrow> Inl ErrTokenUnverifiable
           | Some name \<Rightarrow>
               (case GetSigningMethod name of
                  None \<Rightarrow> Inl ErrTokenUnverifiable
                | Some method \<Rightarrow>
                    (let token = \<lparr>Method = method, HeaderAlg = alg, TokenClaims = claims,
                                  Signature = sig, Valid = False\<rparr>
                     in case keyFunc token of
                          Inl err \<Rightarrow> Inl ErrTokenUnverifiable
                        | Inr key \<Rightarrow>
                            (case Verify method alg claims sig key of
                               Some err \<Rightarrow> Inl (ErrTokenSignatureInvalid err)
                             | None \<Rightarrow>
                                 (case Validate now claims of
                                    [] \<Rightarrow> Inr (token\<lparr>Valid := True\<rparr>)
                                  | e # es \<Rightarrow> Inl (ErrTokenInvalidClaims (e # es))))))))"

subsection \<open>Claims, issuing and parsing in the course\<close>

text \<open>
  Both packages declare the same \<^verbatim>\<open>Claims\<close>: \<^verbatim>\<open>UserID\<close>, \<^verbatim>\<open>Username\<close>, \<^verbatim>\<open>Role\<close> and
  the embedded \<^verbatim>\<open>jwt.RegisteredClaims\<close>. The signing key is the package variable
  \<^verbatim>\<open>jwtSecret\<close>; the functions below take it, and the instant that \<^verbatim>\<open>time.Now()\<close>
  gives during the call, as arguments.
\<close>

record Claims = RegisteredClaims +
  UserID :: nat
  claims_Username :: string
  Role :: string

definition Marshal_Claims :: "Claims \<Rightarrow> json" where
  \<comment> \<open>the fields in the order of the struct, under the names of their tags; the fields
      of the embedded struct follow\<close>
  "Marshal_Claims c =
     JObject
       ([(''user_id'', JNumber (int (UserID c))),
         (''username'', Marshal_string (claims_Username c)),
         (''role'', Marshal_string (Role c))] @
        Marshal_RegisteredClaims c)"

definition Unmarshal_Claims :: "json \<Rightarrow> Claims option" where
  "Unmarshal_Claims j =
     (case j of
        JObject ms \<Rightarrow>
          do {
            user_id \<leftarrow> Unmarshal_uint (map_of ms ''user_id'');
            username \<leftarrow> Unmarshal_string (map_of ms ''username'');
            role \<leftarrow> Unmarshal_string (map_of ms ''role'');
            iss \<leftarrow> Unmarshal_string (map_of ms ''iss'');
            sub \<leftarrow> Unmarshal_string (map_of ms ''sub'');
            aud \<leftarrow> Unmarshal_ClaimStrings (map_of ms ''aud'');
            exp \<leftarrow> Unmarshal_NumericDate (map_of ms ''exp'');
            nbf \<leftarrow> Unmarshal_NumericDate (map_of ms ''nbf'');
            iat \<leftarrow> Unmarshal_NumericDate (map_of ms ''iat'');
            jti \<leftarrow> Unmarshal_string (map_of ms ''jti'');
            Some \<lparr>Issuer = iss, Subject = sub, Audience = aud, ExpiresAt = exp,
                  NotBefore = nbf, IssuedAt = iat, TokenID = jti,
                  UserID = user_id, claims_Username = username, Role = role\<rparr>
          }
      | _ \<Rightarrow> None)"

definition jwtSecret :: string where
  "jwtSecret = ''your-256-bit-secret-key-here!!!''"

definition generateToken ::
    "string \<Rightarrow> int \<Rightarrow> nat \<Rightarrow> string \<Rightarrow> string \<Rightarrow> int \<Rightarrow> jwt_error + Claims token_string" where
  \<comment> \<open>02-gin-auth\<close>
  "generateToken secret now userID username role duration =
     (let claims = \<lparr>Issuer = ''go-web-tutorial'', Subject = [], Audience = [],
                     ExpiresAt = Some (NewNumericDate (now + duration)),
                     NotBefore = None,
                     IssuedAt = Some (NewNumericDate now),
                     TokenID = [],
                     UserID = userID, claims_Username = username, Role = role\<rparr>;
          token = NewWithClaims SigningMethodHS256 claims
      in SignedString Marshal_Claims Unmarshal_Claims token secret)"

definition parseToken :: "string \<Rightarrow> int \<Rightarrow> Claims token_string \<Rightarrow> jwt_error + Claims" where
  \<comment> \<open>02-gin-auth: the key function returns the secret whatever the token\<close>
  "parseToken secret now tokenString =
     (case ParseWithClaims now tokenString (\<lambda>token. Inr secret) of
        Inl err \<Rightarrow> Inl err
      | Inr token \<Rightarrow>
          if Valid token then Inr (TokenClaims token) else Inl (PlainError ErrSignatureInvalid))"

definition GenerateToken ::
    "string \<Rightarrow> int \<Rightarrow> nat \<Rightarrow> string \<Rightarrow> string \<Rightarrow> jwt_error + Claims token_string" where
  \<comment> \<open>01-jwt-basics\<close>
  "GenerateToken secret now userID username role =
     (let claims = \<lparr>Issuer = ''go-web-tutorial'', Subject = username, Audience = [],
                     ExpiresAt = Some (NewNumericDate (now + 2 * Hour)),
                     NotBefore = Some (NewNumericDate now),
                     IssuedAt = Some (NewNumericDate now),
                     TokenID = [],
                     UserID = userID, claims_Username = username, Role = role\<rparr>;
          token = NewWithClaims SigningMethodHS256 claims
      in SignedString Marshal_Claims Unmarshal_Claims token secret)"

definition ParseToken :: "string \<Rightarrow> int \<Rightarrow> Claims token_string \<Rightarrow> jwt_error + Claims" where
  \<comment> \<open>01-jwt-basics: the key function refuses a method that is not an HMAC method\<close>
  "ParseToken secret now tokenString =
     (case ParseWithClaims now tokenString
             (\<lambda>token. if \<not> is_HMAC (Method token)
                       then Inl (UnexpectedSigningMethod (HeaderAlg token))
                       else Inr secret) of
        Inl err \<Rightarrow> Inl err
      | Inr token \<Rightarrow>
          if Valid token then Inr (TokenClaims token) else Inl InvalidToken)"

text \<open>Concrete tokens for the instances below.\<close>

definition admin_claims :: Claims where
  \<comment> \<open>the claims of a token issued to \<^verbatim>\<open>admin\<close> at the epoch for two hours\<close>
  "admin_claims =
     \<lparr>Issuer = ''go-web-tutorial'', Subject = [], Audience = [],
      ExpiresAt = Some (2 * Hour), NotBefore = None, IssuedAt = Some 0, TokenID = [],
      UserID = 1, claims_Username = ''admin'', Role = ''admin''\<rparr>"

definition hs384_token :: "Claims token_string" where
  \<comment> \<open>the same claims under a header that declares HS384, signed with HMAC-SHA384 and
      the secret of the course\<close>
  "hs384_token =
     Segments (Some ''HS384'') admin_claims (HMAC_SHA 384 jwtSecret (Some ''HS384'') admin_claims)"

definition none_token :: "Claims token_string" where
  \<comment> \<open>the same claims under \<^verbatim>\<open>alg: none\<close> with the empty signature, which is the valid
      signature of that method\<close>
  "none_token = Segments (Some ''none'') admin_claims (OtherSignature [])"

definition hs512_token :: "Claims token_string" where
  \<comment> \<open>the same claims under a header that declares HS512, signed with HMAC-SHA512 and
      the secret of the course\<close>
  "hs512_token =
     Segments (Some ''HS512'') admin_claims (HMAC_SHA 512 jwtSecret (Some ''HS512'') admin_claims)"

definition hs384_forged_token :: "Claims token_string" where
  \<comment> \<open>a header that declares HS384 over a signature made with another key\<close>
  "hs384_forged_token =
     Segments (Some ''HS384'') admin_claims (HMAC_SHA 384 ''guess'' (Some ''HS384'') admin_claims)"

definition rs256_token :: "Claims token_string" where
  \<comment> \<open>a header that declares RS256 over the HMAC-SHA256 of header and claims under the
      secret: the signature an attacker makes who takes a public key for an HMAC key\<close>
  "rs256_token =
     Segments (Some ''RS256'') admin_claims (HMAC_SHA 256 jwtSecret (Some ''RS256'') admin_claims)"

definition admin_token :: "Claims token_string" where
  \<comment> \<open>what \<open>generateToken\<close> issues to \<^verbatim>\<open>admin\<close> at the epoch for two hours\<close>
  "admin_token =
     Segments (Some ''HS256'') admin_claims (HMAC_SHA 256 jwtSecret (Some ''HS256'') admin_claims)"

section \<open>Authentication and role middleware\<close>

subsection \<open>The Authorization header\<close>

text \<open>
  \<^verbatim>\<open>strings.SplitN(s, sep, n)\<close> for a separator of one byte and \<open>n \<ge> 0\<close>: at most
  \<open>n\<close> pieces, the last of which is the remainder, unsplit.
\<close>

fun SplitN :: "string \<Rightarrow> char \<Rightarrow> nat \<Rightarrow> string list" where
  "SplitN s sep 0 = []"
| "SplitN s sep (Suc 0) = [s]"
| "SplitN s sep (Suc (Suc n)) =
     (if sep \<in> set s
      then takeWhile (\<lambda>x. x \<noteq> sep) s # SplitN (tl (dropWhile (\<lambda>x. x \<noteq> sep) s)) sep (Suc n)
      else [s])"

subsection \<open>02-gin-auth: \<open>JWTAuthMiddleware\<close> and \<open>RoleMiddleware\<close>\<close>

definition msg_no_auth_header :: string where
  \<comment> \<open>"the authentication header is missing"\<close>
  "msg_no_auth_header = [CHR 0xE7, CHR 0xBC, CHR 0xBA, CHR 0xE5, CHR 0xB0, CHR 0x91, CHR 0xE8, CHR 0xAE, CHR 0xA4, CHR 0xE8, CHR 0xAF, CHR 0x81, CHR 0xE5, CHR 0xA4, CHR 0xB4]"

definition msg_bad_auth_header :: string where
  \<comment> \<open>"the authentication header has the wrong format"\<close>
  "msg_bad_auth_header = [CHR 0xE8, CHR 0xAE, CHR 0xA4, CHR 0xE8, CHR 0xAF, CHR 0x81, CHR 0xE5, CHR 0xA4, CHR 0xB4, CHR 0xE6, CHR 0xA0, CHR 0xBC, CHR 0xE5, CHR 0xBC, CHR 0x8F, CHR 0xE9, CHR 0x94, CHR 0x99, CHR 0xE8, CHR 0xAF, CHR 0xAF]"

definition msg_token_invalid :: string where
  \<comment> \<open>"the token is invalid or has expired"\<close>
  "msg_token_invalid = ''token '' @ [CHR 0xE6, CHR 0x97, CHR 0xA0, CHR 0xE6, CHR 0x95, CHR 0x88, CHR 0xE6, CHR 0x88, CHR 0x96, CHR 0xE5, CHR 0xB7, CHR 0xB2, CHR 0xE8, CHR 0xBF, CHR 0x87, CHR 0xE6, CHR 0x9C, CHR 0x9F]"

definition msg_forbidden :: string where
  \<comment> \<open>"insufficient permission"\<close>
  "msg_forbidden = [CHR 0xE6, CHR 0x9D, CHR 0x83, CHR 0xE9, CHR 0x99, CHR 0x90, CHR 0xE4, CHR 0xB8, CHR 0x8D, CHR 0xE8, CHR 0xB6, CHR 0xB3]"

text \<open>
  The middleware reads the token in the text after the scheme. How a text is read as a
  token string belongs to the library and is an argument here (\<open>decode\<close>), as is the
  instant \<open>now\<close> of the check. The call of \<open>parseToken\<close> is logged in \<open>verified\<close>.
\<close>

definition JWTAuthMiddleware ::
    "(string \<Rightarrow> Claims token_string) \<Rightarrow> int \<Rightarrow> Context HandlerFunc" where
  "JWTAuthMiddleware decode now c =
     (let authHeader = GetHeader c ''Authorization''
      in if authHeader = [] then
           Aborted (JSON StatusUnauthorized (H_error msg_no_auth_header) c) (\<lambda>c. c)
         else
           (let parts = SplitN authHeader CHR '' '' 2
            in if length parts \<noteq> 2 \<or> parts ! 0 \<noteq> ''Bearer'' then
                 Aborted (JSON StatusUnauthorized (H_error msg_bad_auth_header) c) (\<lambda>c. c)
               else
                 (let c = c\<lparr>verified := verified c @ [parts ! 1]\<rparr>
                  in case parseToken jwtSecret now (decode (parts ! 1)) of
                       Inl err \<Rightarrow>
                         Aborted (JSON StatusUnauthorized (H_error msg_token_invalid) c)
                           (\<lambda>c. c)
                     | Inr claims \<Rightarrow>
                         (let c = Set ''userID'' (VUint (UserID claims)) c;
                              c = Set ''username'' (VString (claims_Username claims)) c;
                              c = Set ''role'' (VString (Role claims)) c
                          in CallNext c (\<lambda>c. c)))))"


definition adminHandler :: "Context HandlerFunc" where
  \<comment> \<open>"welcome, administrator!"\<close>
  "adminHandler c =
     Return (JSON StatusOK (JObject [(''message'', JString ([CHR 0xE6, CHR 0xAC, CHR 0xA2, CHR 0xE8, CHR 0xBF, CHR 0x8E, CHR 0xE7, CHR 0xAE, CHR 0xA1, CHR 0xE7, CHR 0x90, CHR 0x86, CHR 0xE5, CHR 0x91, CHR 0x98] @ ''!''))]) c)"

subsection \<open>08, examples/03-auth-middleware: \<open>AuthMiddleware\<close>\<close>

record TokenUser =
  tu_ID :: int
  tu_Username :: string
  tu_Role :: string

datatype gin_error = ErrorTypePrivate

definition validTokens :: "(string \<times> TokenUser) list" where
  "validTokens =
     [(''valid-user-token'', \<lparr>tu_ID = 1, tu_Username = ''tom'', tu_Role = ''user''\<rparr>),
      (''valid-admin-token'', \<lparr>tu_ID = 2, tu_Username = ''admin'', tu_Role = ''admin''\<rparr>)]"

definition validateToken :: "string \<Rightarrow> gin_error + TokenUser" where
  "validateToken token =
     (case map_of validTokens token of
        Some user \<Rightarrow> Inr user
      | None \<Rightarrow> Inl ErrorTypePrivate)"

definition H_code_message :: "int \<Rightarrow> string \<Rightarrow> json" where
  \<comment> \<open>\<^verbatim>\<open>gin.H{"code": code, "message": msg}\<close>\<close>
  "H_code_message code msg = JObject [(''code'', JNumber code), (''message'', JString msg)]"

definition msg_no_token :: string where
  \<comment> \<open>"no authentication token was supplied"\<close>
  "msg_no_token = [CHR 0xE6, CHR 0x9C, CHR 0xAA, CHR 0xE6, CHR 0x8F, CHR 0x90, CHR 0xE4, CHR 0xBE, CHR 0x9B, CHR 0xE8, CHR 0xAE, CHR 0xA4, CHR 0xE8, CHR 0xAF, CHR 0x81, CHR 0xE4, CHR 0xBB, CHR 0xA4, CHR 0xE7, CHR 0x89, CHR 0x8C]"

definition msg_bad_auth_format :: string where
  \<comment> \<open>"wrong authentication format, it should be: Bearer <token>"\<close>
  "msg_bad_auth_format = [CHR 0xE8, CHR 0xAE, CHR 0xA4, CHR 0xE8, CHR 0xAF, CHR 0x81, CHR 0xE6, CHR 0xA0, CHR 0xBC, CHR 0xE5, CHR 0xBC, CHR 0x8F, CHR 0xE9, CHR 0x94, CHR 0x99, CHR 0xE8, CHR 0xAF, CHR 0xAF, CHR 0xEF, CHR 0xBC, CHR 0x8C, CHR 0xE5, CHR 0xBA, CHR 0x94, CHR 0xE4, CHR 0xB8, CHR 0xBA] @ '': Bearer <token>''"

definition msg_bad_token :: string where
  \<comment> \<open>"invalid token"\<close>
  "msg_bad_token = [CHR 0xE6, CHR 0x97, CHR 0xA0, CHR 0xE6, CHR 0x95, CHR 0x88, CHR 0xE7, CHR 0x9A, CHR 0x84, CHR 0xE4, CHR 0xBB, CHR 0xA4, CHR 0xE7, CHR 0x89, CHR 0x8C]"

definition AuthMiddleware :: "Context HandlerFunc" where
  "AuthMiddleware c =
     (let authHeader = GetHeader c ''Authorization''
      in if authHeader = [] then
           AbortWithStatusJSON StatusUnauthorized (H_code_message 401 msg_no_token) c (\<lambda>c. c)
         else
           (let parts = SplitN authHeader CHR '' '' 2
            in if length parts \<noteq> 2 \<or> parts ! 0 \<noteq> ''Bearer'' then
                 AbortWithStatusJSON StatusUnauthorized
                   (H_code_message 401 msg_bad_auth_format) c (\<lambda>c. c)
               else
                 (let token = parts ! 1;
                      c = c\<lparr>verified := verified c @ [token]\<rparr>
                  in case validateToken token of
                       Inl err \<Rightarrow>
                         AbortWithStatusJSON StatusUnauthorized
                           (H_code_message 401 msg_bad_token) c (\<lambda>c. c)
                     | Inr user \<Rightarrow>
                         (let c = Set ''user_id'' (VInt (tu_ID user)) c;
                              c = Set ''username'' (VString (tu_Username user)) c;
                              c = Set ''role'' (VString (tu_Role user)) c
                          in CallNext c (\<lambda>c. c)))))"

subsection \<open>15, examples/03-protected-routes: \<open>AuthRequired\<close> and \<open>RequireRole\<close>\<close>

record RouteClaims = RegisteredClaims +
  route_UserID :: nat
  route_Username :: string
  Roles :: "string list"
  Permissions :: "string list"

definition parseToken_routes ::
    "string \<Rightarrow> int \<Rightarrow> RouteClaims token_string \<Rightarrow> jwt_error + RouteClaims" where
  "parseToken_routes secret now tokenString =
     (case ParseWithClaims now tokenString (\<lambda>token. Inr secret) of
        Inl err \<Rightarrow> Inl err
      | Inr token \<Rightarrow>
          if Valid token then Inr (TokenClaims token) else Inl (PlainError ErrSignatureInvalid))"

definition msg_login_required :: string where
  \<comment> \<open>"login required"\<close>
  "msg_login_required = [CHR 0xE9, CHR 0x9C, CHR 0x80, CHR 0xE8, CHR 0xA6, CHR 0x81, CHR 0xE7, CHR 0x99, CHR 0xBB, CHR 0xE5, CHR 0xBD, CHR 0x95]"

definition msg_auth_format :: string where
  \<comment> \<open>"wrong authentication format"\<close>
  "msg_auth_format = [CHR 0xE8, CHR 0xAE, CHR 0xA4, CHR 0xE8, CHR 0xAF, CHR 0x81, CHR 0xE6, CHR 0xA0, CHR 0xBC, CHR 0xE5, CHR 0xBC, CHR 0x8F, CHR 0xE9, CHR 0x94, CHR 0x99, CHR 0xE8, CHR 0xAF, CHR 0xAF]"

definition msg_token_bad :: string where
  \<comment> \<open>"the token is invalid"\<close>
  "msg_token_bad = ''token '' @ [CHR 0xE6, CHR 0x97, CHR 0xA0, CHR 0xE6, CHR 0x95, CHR 0x88]"

definition msg_role_forbidden :: string where
  \<comment> \<open>"insufficient role permission"\<close>
  "msg_role_forbidden = [CHR 0xE8, CHR 0xA7, CHR 0x92, CHR 0xE8, CHR 0x89, CHR 0xB2, CHR 0xE6, CHR 0x9D, CHR 0x83, CHR 0xE9, CHR 0x99, CHR 0x90, CHR 0xE4, CHR 0xB8, CHR 0x8D, CHR 0xE8, CHR 0xB6, CHR 0xB3]"

definition AuthRequired ::
    "(string \<Rightarrow> RouteClaims token_string) \<Rightarrow> int \<Rightarrow> Context HandlerFunc" where
  "AuthRequired decode now c =
     (let authHeader = GetHeader c ''Authorization''
      in if authHeader = [] then
           Aborted (JSON StatusUnauthorized (H_error msg_login_required) c) (\<lambda>c. c)
         else
           (let parts = SplitN authHeader CHR '' '' 2
            in if length parts \<noteq> 2 \<or> parts ! 0 \<noteq> ''Bearer'' then
                 Aborted (JSON StatusUnauthorized (H_error msg_auth_format) c) (\<lambda>c. c)
               else
                 (let c = c\<lparr>verified := verified c @ [parts ! 1]\<rparr>
                  in case parseToken_routes jwtSecret now (decode (parts ! 1)) of
                       Inl err \<Rightarrow>
                         Aborted (JSON StatusUnauthorized (H_error msg_token_bad) c) (\<lambda>c. c)
                     | Inr claims \<Rightarrow>
                         (let c = Set ''userID'' (VUint (route_UserID claims)) c;
                              c = Set ''username'' (VString (route_Username claims)) c;
                              c = Set ''roles'' (VStrings (Roles claims)) c;
                              c = Set ''permissions'' (VStrings (Permissions claims)) c
                          in CallNext c (\<lambda>c. c)))))"

text \<open>
  The two nested loops of \<open>RequireRole\<close>: for each required role, for each role of the
  user, the first equal pair ends both loops with \<^verbatim>\<open>c.Next(); return\<close>.
\<close>

fun has_role :: "string \<Rightarrow> string list \<Rightarrow> bool" where
  "has_role required [] = False"
| "has_role required (userRole # userRoles) =
     (if userRole = required then True else has_role required userRoles)"

fun some_role :: "string list \<Rightarrow> string list \<Rightarrow> bool" where
  "some_role [] userRoles = False"
| "some_role (required # roles) userRoles =
     (if has_role required userRoles then True else some_role roles userRoles)"

definition RequireRole :: "string list \<Rightarrow> Context HandlerFunc" where
  "RequireRole roles c =
     (let userRoles = GetStringSlice c ''roles''
      in if some_role roles userRoles then CallNext c (\<lambda>c. c)
         else Aborted (JSON StatusForbidden (H_error msg_role_forbidden) c) (\<lambda>c. c))"

fun has_permission :: "string \<Rightarrow> string list \<Rightarrow> bool" where
  "has_permission required [] = False"
| "has_permission required (perm # permissions) =
     (if perm = required then True else has_permission required permissions)"

definition RequirePermission :: "string \<Rightarrow> Context HandlerFunc" where
  "RequirePermission required c =
     (let permissions = GetStringSlice c ''permissions''
      in if has_permission required permissions then CallNext c (\<lambda>c. c)
         else Aborted
                (JSON StatusForbidden
                   (JObject [(''error'', JString msg_forbidden), (''required'', JString required)])
                   c)
                (\<lambda>c. c))"


text \<open>Requests for the instances below.\<close>

definition with_authorization :: "string \<Rightarrow> Context" where
  \<comment> \<open>a request that carries the given \<^verbatim>\<open>Authorization\<close> header\<close>
  "with_authorization v = request\<lparr>headers := [''Authorization'' \<mapsto> v]\<rparr>"

definition with_roles :: "string list \<Rightarrow> Context" where
  \<comment> \<open>a context in which authentication has stored the given roles\<close>
  "with_roles rs = request\<lparr>Keys := [''roles'' \<mapsto> VStrings rs]\<rparr>"

definition no_decode :: "string \<Rightarrow> Claims token_string" where
  \<comment> \<open>a reading of token strings under which no text is a token\<close>
  "no_decode text = Malformed"



section \<open>Properties of the login endpoint\<close>

subsection \<open>The three failing paths of \<open>loginHandler\<close>\<close>

lemma loginHandler_locked:
  assumes "ShouldBindJSON decoded = Some req" and "isLocked s (req_Username req)"
  shows "loginHandler cmp decoded s =
     (s, \<lparr>status = StatusTooManyRequests, body = H_error msg_too_many_attempts\<rparr>)"
  using assms by (simp add: loginHandler_def)

lemma loginHandler_unknown_user:
  assumes "ShouldBindJSON decoded = Some req" and "\<not> isLocked s (req_Username req)"
    and "users s (req_Username req) = None"
  shows "loginHandler cmp decoded s =
     (recordFailedLogin (req_Username req) s,
      \<lparr>status = StatusUnauthorized, body = H_error msg_bad_credentials\<rparr>)"
  using assms by (simp add: loginHandler_def)

lemma loginHandler_wrong_password:
  assumes "ShouldBindJSON decoded = Some req" and "\<not> isLocked s (req_Username req)"
    and "users s (req_Username req) = Some user"
    and "\<not> CheckPassword cmp (req_Password req) (PasswordHash user)"
  shows "loginHandler cmp decoded s =
     (recordFailedLogin (req_Username req) s,
      \<lparr>status = StatusUnauthorized, body = H_error msg_bad_credentials\<rparr>)"
  using assms by (simp add: loginHandler_def)

lemma attempts_recordFailedLogin:
  "attempts (recordFailedLogin u s) v = (if v = u then attempts s u + 1 else attempts s v)"
  by (simp add: attempts_def recordFailedLogin_def)

lemma users_recordFailedLogin: "users (recordFailedLogin u s) = users s"
  by (simp add: recordFailedLogin_def)

lemma attempts_funpow_recordFailedLogin:
  "attempts ((recordFailedLogin u ^^ n) s) u = attempts s u + int n"
  by (induction n) (simp_all add: attempts_recordFailedLogin)

lemma ShouldBindJSON_login_as:
  "u \<noteq> [] \<Longrightarrow> p \<noteq> [] \<Longrightarrow>
   ShouldBindJSON (login_as u p) = Some \<lparr>req_Username = u, req_Password = p\<rparr>"
  by (simp add: ShouldBindJSON_def login_as_def)

lemma messages_differ: "msg_too_many_attempts \<noteq> msg_bad_credentials"
  by (simp add: msg_too_many_attempts_def msg_bad_credentials_def)

lemma logins_append:
  "logins cmp (rs @ rs') s =
     (case logins cmp rs s of
        (s', out) \<Rightarrow> (case logins cmp rs' s' of (s'', out') \<Rightarrow> (s'', out @ out')))"
  by (induction rs arbitrary: s) (simp_all split: prod.splits)

text \<open>
  Failed attempts by an identity that is not in the user table, as long as the counter
  stays within the threshold: each is answered 401 and recorded.
\<close>

lemma unknown_user_failures:
  assumes "users s u = None" and "u \<noteq> []" and "list_all (\<lambda>p. p \<noteq> []) ps"
    and "attempts s u + int (length ps) \<le> maxLoginAttempts"
  shows "logins cmp (map (login_as u) ps) s =
     ((recordFailedLogin u ^^ length ps) s,
      replicate (length ps)
        \<lparr>status = StatusUnauthorized, body = H_error msg_bad_credentials\<rparr>)"
  using assms
proof (induction ps arbitrary: s)
  case Nil
  then show ?case by simp
next
  case (Cons p ps)
  have b: "ShouldBindJSON (login_as u p) = Some \<lparr>req_Username = u, req_Password = p\<rparr>"
    using Cons.prems by (simp add: ShouldBindJSON_login_as)
  have nl: "\<not> isLocked s u"
    using Cons.prems by (simp add: isLocked_def)
  have step: "loginHandler cmp (login_as u p) s =
      (recordFailedLogin u s,
       \<lparr>status = StatusUnauthorized, body = H_error msg_bad_credentials\<rparr>)"
    using loginHandler_unknown_user [OF b] nl Cons.prems by simp
  have ih: "logins cmp (map (login_as u) ps) (recordFailedLogin u s) =
     ((recordFailedLogin u ^^ length ps) (recordFailedLogin u s),
      replicate (length ps)
        \<lparr>status = StatusUnauthorized, body = H_error msg_bad_credentials\<rparr>)"
  proof (rule Cons.IH)
    show "users (recordFailedLogin u s) u = None"
      using Cons.prems by (simp add: users_recordFailedLogin)
    show "u \<noteq> []" by (rule Cons.prems)
    show "list_all (\<lambda>p. p \<noteq> []) ps"
      using Cons.prems by simp
    show "attempts (recordFailedLogin u s) u + int (length ps) \<le> maxLoginAttempts"
      using Cons.prems by (simp add: attempts_recordFailedLogin)
  qed
  show ?case by (simp add: step ih funpow_swap1)
qed

subsection \<open>Lockout\<close>

text \<open>
  Claim C3. Once the failure count recorded for an identity has reached the threshold,
  \<open>isLocked\<close> holds for it and a login attempt for it is answered with the lockout
  response, with the state left as it was. The answer is the same for every password
  comparison function and every user table, so neither is consulted: the lock check comes
  first, and a correct password does not help.
\<close>

theorem locked_identity_rejected_before_password_check:
  assumes "maxLoginAttempts \<le> attempts s (req_Username req)"
    and "ShouldBindJSON decoded = Some req"
  shows "isLocked s (req_Username req) \<and>
     loginHandler cmp decoded s =
       (s, \<lparr>status = StatusTooManyRequests, body = H_error msg_too_many_attempts\<rparr>)"
proof -
  have locked: "isLocked s (req_Username req)"
    using assms(1) by (simp add: isLocked_def)
  from loginHandler_locked [OF assms(2) locked] locked show ?thesis by simp
qed

theorem locked_identity_rejected_before_password_check_witness:
  "users (tom_state 5) ''tom'' = Some tom \<and>
   CheckPassword demo_compare ''Test@123456'' (PasswordHash tom) \<and>
   isLocked (tom_state 5) ''tom'' \<and>
   loginHandler demo_compare (login_as ''tom'' ''Test@123456'') (tom_state 5) =
     (tom_state 5, \<lparr>status = StatusTooManyRequests, body = H_error msg_too_many_attempts\<rparr>)"
proof -
  have a: "maxLoginAttempts \<le>
      attempts (tom_state 5) (req_Username \<lparr>req_Username = ''tom'', req_Password = ''Test@123456''\<rparr>)"
    by (simp add: maxLoginAttempts_def attempts_def tom_state_def)
  have b: "ShouldBindJSON (login_as ''tom'' ''Test@123456'') =
      Some \<lparr>req_Username = ''tom'', req_Password = ''Test@123456''\<rparr>"
    by (simp add: ShouldBindJSON_login_as)
  have c: "users (tom_state 5) ''tom'' = Some tom"
    by (simp add: tom_state_def)
  have d: "CheckPassword demo_compare ''Test@123456'' (PasswordHash tom)"
    by (simp add: CheckPassword_def demo_compare_def tom_def)
  from locked_identity_rejected_before_password_check [OF a b, of demo_compare] c d
  show ?thesis by simp
qed

text \<open>
  Claim C5, as stated: the lockout response carries the same message as the response to
  wrong credentials. It does not: for the same request with a wrong password, a locked
  identity is told "too many login attempts" and an unlocked one "user name or password
  wrong".
\<close>

theorem lockout_message_same_as_bad_credentials_counterexample:
  "body (snd (loginHandler demo_compare (login_as ''tom'' ''wrong-password'') (tom_state 5))) \<noteq>
   body (snd (loginHandler demo_compare (login_as ''tom'' ''wrong-password'') (tom_state 0)))"
  by (simp add: loginHandler_def ShouldBindJSON_def login_as_def isLocked_def attempts_def
      maxLoginAttempts_def tom_state_def tom_def CheckPassword_def demo_compare_def
      H_error_def messages_differ)

text \<open>
  Claim C5, amended. The lockout response is one fixed response (status 429, "too many
  login attempts"), whatever the password and whether or not the identity exists; the
  response to wrong credentials is another fixed response (status 401, "user name or
  password wrong"); the two differ in status and in message.
\<close>

theorem lockout_response_fixed_and_distinct:
  assumes "ShouldBindJSON d1 = Some r1" and "isLocked s1 (req_Username r1)"
    and "ShouldBindJSON d2 = Some r2" and "\<not> isLocked s2 (req_Username r2)"
    and "users s2 (req_Username r2) = Some user"
    and "\<not> CheckPassword cmp (req_Password r2) (PasswordHash user)"
  shows "snd (loginHandler cmp d1 s1) =
       \<lparr>status = StatusTooManyRequests, body = H_error msg_too_many_attempts\<rparr> \<and>
     snd (loginHandler cmp d2 s2) =
       \<lparr>status = StatusUnauthorized, body = H_error msg_bad_credentials\<rparr> \<and>
     status (snd (loginHandler cmp d1 s1)) \<noteq> status (snd (loginHandler cmp d2 s2)) \<and>
     body (snd (loginHandler cmp d1 s1)) \<noteq> body (snd (loginHandler cmp d2 s2))"
  using loginHandler_locked [OF assms(1,2), of cmp]
    loginHandler_wrong_password [OF assms(3,4,5,6)]
  by (simp add: H_error_def messages_differ StatusTooManyRequests_def StatusUnauthorized_def)

theorem lockout_response_fixed_and_distinct_witness:
  "snd (loginHandler demo_compare (login_as ''tom'' ''Test@123456'') (tom_state 5)) =
     \<lparr>status = StatusTooManyRequests, body = H_error msg_too_many_attempts\<rparr> \<and>
   snd (loginHandler demo_compare (login_as ''tom'' ''wrong-password'') (tom_state 4)) =
     \<lparr>status = StatusUnauthorized, body = H_error msg_bad_credentials\<rparr>"
proof -
  have a: "ShouldBindJSON (login_as ''tom'' ''Test@123456'') =
      Some \<lparr>req_Username = ''tom'', req_Password = ''Test@123456''\<rparr>"
    by (simp add: ShouldBindJSON_login_as)
  have b: "isLocked (tom_state 5)
      (req_Username \<lparr>req_Username = ''tom'', req_Password = ''Test@123456''\<rparr>)"
    by (simp add: isLocked_def maxLoginAttempts_def attempts_def tom_state_def)
  have c: "ShouldBindJSON (login_as ''tom'' ''wrong-password'') =
      Some \<lparr>req_Username = ''tom'', req_Password = ''wrong-password''\<rparr>"
    by (simp add: ShouldBindJSON_login_as)
  have d: "\<not> isLocked (tom_state 4)
      (req_Username \<lparr>req_Username = ''tom'', req_Password = ''wrong-password''\<rparr>)"
    by (simp add: isLocked_def maxLoginAttempts_def attempts_def tom_state_def)
  have e: "users (tom_state 4)
      (req_Username \<lparr>req_Username = ''tom'', req_Password = ''wrong-password''\<rparr>) = Some tom"
    by (simp add: tom_state_def)
  have f: "\<not> CheckPassword demo_compare
      (req_Password \<lparr>req_Username = ''tom'', req_Password = ''wrong-password''\<rparr>)
      (PasswordHash tom)"
    by (simp add: CheckPassword_def demo_compare_def tom_def)
  from lockout_response_fixed_and_distinct [OF a b c d e f] show ?thesis by simp
qed

subsection \<open>No identity enumeration\<close>

text \<open>
  Claim C8. Take two failed credential exchanges with the same lock status: in the first
  the identity is not in the user table, in the second it is and the password is wrong.
  The two responses are equal, status and body, whatever the identities, passwords and
  states are.
\<close>

theorem failed_login_response_uniform:
  assumes "ShouldBindJSON d1 = Some r1" and "ShouldBindJSON d2 = Some r2"
    and "isLocked s1 (req_Username r1) = isLocked s2 (req_Username r2)"
    and "users s1 (req_Username r1) = None"
    and "users s2 (req_Username r2) = Some user"
    and "\<not> CheckPassword cmp (req_Password r2) (PasswordHash user)"
  shows "snd (loginHandler cmp d1 s1) = snd (loginHandler cmp d2 s2)"
proof (cases "isLocked s1 (req_Username r1)")
  case True
  with assms(3) have l2: "isLocked s2 (req_Username r2)" by simp
  from loginHandler_locked [OF assms(1) True, of cmp] loginHandler_locked [OF assms(2) l2, of cmp]
  show ?thesis by simp
next
  case False
  with assms(3) have l2: "\<not> isLocked s2 (req_Username r2)" by simp
  from loginHandler_unknown_user [OF assms(1) False assms(4), of cmp]
    loginHandler_wrong_password [OF assms(2) l2 assms(5,6)]
  show ?thesis by simp
qed

theorem failed_login_response_uniform_witness:
  "snd (loginHandler demo_compare (login_as ''ghost'' ''Test@123456'') (tom_state 0)) =
   snd (loginHandler demo_compare (login_as ''tom'' ''wrong-password'') (tom_state 0))"
proof -
  have a: "ShouldBindJSON (login_as ''ghost'' ''Test@123456'') =
      Some \<lparr>req_Username = ''ghost'', req_Password = ''Test@123456''\<rparr>"
    by (simp add: ShouldBindJSON_login_as)
  have b: "ShouldBindJSON (login_as ''tom'' ''wrong-password'') =
      Some \<lparr>req_Username = ''tom'', req_Password = ''wrong-password''\<rparr>"
    by (simp add: ShouldBindJSON_login_as)
  have c: "isLocked (tom_state 0)
        (req_Username \<lparr>req_Username = ''ghost'', req_Password = ''Test@123456''\<rparr>) =
      isLocked (tom_state 0)
        (req_Username \<lparr>req_Username = ''tom'', req_Password = ''wrong-password''\<rparr>)"
    by (simp add: isLocked_def maxLoginAttempts_def attempts_def tom_state_def)
  have d: "users (tom_state 0)
      (req_Username \<lparr>req_Username = ''ghost'', req_Password = ''Test@123456''\<rparr>) = None"
    by (simp add: tom_state_def)
  have e: "users (tom_state 0)
      (req_Username \<lparr>req_Username = ''tom'', req_Password = ''wrong-password''\<rparr>) = Some tom"
    by (simp add: tom_state_def)
  have f: "\<not> CheckPassword demo_compare
      (req_Password \<lparr>req_Username = ''tom'', req_Password = ''wrong-password''\<rparr>)
      (PasswordHash tom)"
    by (simp add: CheckPassword_def demo_compare_def tom_def)
  from failed_login_response_uniform [OF a b c d e f] show ?thesis .
qed

subsection \<open>Failures of identities that were never registered\<close>

text \<open>
  Claim C9. An identity that is not in the user table and has no recorded failure makes
  five attempts and then a sixth. Each of the five is answered with the wrong-credentials
  response and adds one to the identity's counter (after \<open>k\<close> attempts it stands at
  \<open>k\<close>); the identity is then locked, and the sixth attempt gets the lockout response
  instead of the wrong-credentials one.
\<close>

theorem unregistered_identity_counted_and_locked:
  assumes "users s u = None" and "loginAttempts s u = None" and "u \<noteq> []"
    and "length ps = 5" and "list_all (\<lambda>p. p \<noteq> []) ps" and "q \<noteq> []"
  shows "(\<forall>k\<le>5. attempts (fst (logins cmp (map (login_as u) (take k ps)) s)) u = int k) \<and>
     isLocked (fst (logins cmp (map (login_as u) ps) s)) u \<and>
     snd (logins cmp (map (login_as u) (ps @ [q])) s) =
       replicate 5 \<lparr>status = StatusUnauthorized, body = H_error msg_bad_credentials\<rparr> @
       [\<lparr>status = StatusTooManyRequests, body = H_error msg_too_many_attempts\<rparr>]"
proof -
  have zero: "attempts s u = 0"
    using assms(2) by (simp add: attempts_def)
  have prefix: "logins cmp (map (login_as u) (take k ps)) s =
      ((recordFailedLogin u ^^ k) s,
       replicate k \<lparr>status = StatusUnauthorized, body = H_error msg_bad_credentials\<rparr>)"
    if "k \<le> 5" for k
  proof -
    have len: "length (take k ps) = k"
      using that assms(4) by simp
    have nonempty: "list_all (\<lambda>p. p \<noteq> []) (take k ps)"
      using assms(5) by (auto simp: list_all_iff dest: in_set_takeD)
    have bound: "attempts s u + int (length (take k ps)) \<le> maxLoginAttempts"
      using that len zero by (simp add: maxLoginAttempts_def)
    from unknown_user_failures [OF assms(1) assms(3) nonempty bound, of cmp] len
    show ?thesis by simp
  qed
  have counted: "\<forall>k\<le>5. attempts (fst (logins cmp (map (login_as u) (take k ps)) s)) u = int k"
    using prefix zero by (simp add: attempts_funpow_recordFailedLogin)
  have all: "logins cmp (map (login_as u) ps) s =
      ((recordFailedLogin u ^^ 5) s,
       replicate 5 \<lparr>status = StatusUnauthorized, body = H_error msg_bad_credentials\<rparr>)"
    using prefix [of 5] assms(4) by simp
  have locked: "isLocked ((recordFailedLogin u ^^ 5) s) u"
    using zero by (simp add: isLocked_def maxLoginAttempts_def attempts_funpow_recordFailedLogin)
  have bind: "ShouldBindJSON (login_as u q) = Some \<lparr>req_Username = u, req_Password = q\<rparr>"
    using assms(3,6) by (simp add: ShouldBindJSON_login_as)
  have sixth: "loginHandler cmp (login_as u q) ((recordFailedLogin u ^^ 5) s) =
      ((recordFailedLogin u ^^ 5) s,
       \<lparr>status = StatusTooManyRequests, body = H_error msg_too_many_attempts\<rparr>)"
    using loginHandler_locked [OF bind, of "(recordFailedLogin u ^^ 5) s" cmp] locked by simp
  have run: "snd (logins cmp (map (login_as u) (ps @ [q])) s) =
       replicate 5 \<lparr>status = StatusUnauthorized, body = H_error msg_bad_credentials\<rparr> @
       [\<lparr>status = StatusTooManyRequests, body = H_error msg_too_many_attempts\<rparr>]"
    by (simp add: logins_append all sixth)
  from counted all locked run show ?thesis by simp
qed

theorem unregistered_identity_counted_and_locked_witness:
  "users empty_state ''ghost'' = None \<and>
   isLocked (fst (logins demo_compare (map (login_as ''ghost'') (replicate 5 ''guess'')) empty_state))
     ''ghost'' \<and>
   snd (logins demo_compare (map (login_as ''ghost'') (replicate 5 ''guess'' @ [''guess'']))
     empty_state) =
     replicate 5 \<lparr>status = StatusUnauthorized, body = H_error msg_bad_credentials\<rparr> @
     [\<lparr>status = StatusTooManyRequests, body = H_error msg_too_many_attempts\<rparr>]"
proof -
  have a: "users empty_state ''ghost'' = None"
    by (simp add: empty_state_def)
  have b: "loginAttempts empty_state ''ghost'' = None"
    by (simp add: empty_state_def)
  have c: "''ghost'' \<noteq> []" by simp
  have d: "length (replicate 5 ''guess'') = 5" by simp
  have e: "list_all (\<lambda>p. p \<noteq> []) (replicate 5 ''guess'')"
    by (simp add: list_all_iff)
  have f: "''guess'' \<noteq> []" by simp
  from unregistered_identity_counted_and_locked [OF a b c d e f, of demo_compare] a
  show ?thesis by simp
qed

section \<open>Properties of hashing with a chosen cost\<close>

lemma sum_case_id: "(case x of Inl e \<Rightarrow> Inl e | Inr h \<Rightarrow> Inr h) = x"
  by (cases x) simp_all

text \<open>
  The generator is only ever called with a cost between \<open>MinCost\<close> and \<open>MaxCost\<close>:
  two generators that agree on those costs give the same results.
\<close>

lemma HashPasswordWithCost_calls_in_range:
  assumes "\<And>c. MinCost \<le> c \<Longrightarrow> c \<le> MaxCost \<Longrightarrow> gen password c = gen' password c"
  shows "HashPasswordWithCost gen password c = HashPasswordWithCost gen' password c"
  using assms [of c] assms [of DefaultCost]
  by (simp add: HashPasswordWithCost_def Let_def MinCost_def MaxCost_def DefaultCost_def)

text \<open>
  Claim C10. For a cost below \<open>MinCost\<close> or above \<open>MaxCost\<close>,
  \<open>HashPasswordWithCost\<close> returns exactly what the generator returns for the default
  cost 10, the matcher built by \<open>NewBcryptMatcher\<close> holds the cost 10, and its
  \<open>Hash\<close> is again the generator at cost 10: the out-of-range cost is replaced, not
  reported, and never reaches the generator.
\<close>

theorem out_of_range_cost_replaced_by_default:
  assumes "c < MinCost \<or> c > MaxCost"
  shows "HashPasswordWithCost gen password c = gen password 10 \<and>
     HashPasswordWithCost gen password c = HashPasswordWithCost gen password DefaultCost \<and>
     cost (NewBcryptMatcher c) = 10 \<and>
     Hash gen (NewBcryptMatcher c) password = gen password 10"
  using assms
  by (simp add: HashPasswordWithCost_def NewBcryptMatcher_def Hash_def Let_def sum_case_id
      MinCost_def MaxCost_def DefaultCost_def)

theorem out_of_range_cost_replaced_by_default_witness:
  "demo_generate ''Secr3t!123'' 99 = Inl (InvalidCostError 99) \<and>
   HashPasswordWithCost demo_generate ''Secr3t!123'' 99 = Inr ''$2a$**********$Secr3t!123'' \<and>
   cost (NewBcryptMatcher 99) = 10 \<and>
   Hash demo_generate (NewBcryptMatcher 99) ''Secr3t!123'' = Inr ''$2a$**********$Secr3t!123''"
proof -
  have a: "(99::int) < MinCost \<or> 99 > MaxCost"
    by (simp add: MaxCost_def)
  have g: "demo_generate ''Secr3t!123'' 10 = Inr ''$2a$**********$Secr3t!123''"
    by (simp add: demo_generate_def MinCost_def MaxCost_def DefaultCost_def Let_def
        eval_nat_numeral)
  have h: "demo_generate ''Secr3t!123'' 99 = Inl (InvalidCostError 99)"
    by (simp add: demo_generate_def MinCost_def MaxCost_def DefaultCost_def Let_def)
  from out_of_range_cost_replaced_by_default [OF a, of demo_generate "''Secr3t!123''"] g h
  show ?thesis by simp
qed

section \<open>Properties of the handler chain\<close>

subsection \<open>One turn of the loop\<close>

lemma Next_loop_past_end:
  "int (length hs) \<le> i \<Longrightarrow> Next_loop hs i c = (i, c, [])"
  by (subst Next_loop.simps) simp

text \<open>The loop is left with the index at or past the end of the chain.\<close>

lemma Next_loop_exit_index:
  "0 \<le> i \<Longrightarrow> int (length hs) < abortIndex \<Longrightarrow> int (length hs) \<le> fst (Next_loop hs i c)"
proof (induction hs i c rule: Next_loop.induct)
  case (1 hs i c)
  show ?case
  proof (cases "i < int (length hs)")
    case False
    then show ?thesis by (simp add: Next_loop_past_end)
  next
    case True
    with "1.prems" have g: "0 \<le> i \<and> i < int (length hs) \<and> int (length hs) < abortIndex"
      by simp
    show ?thesis
    proof (cases "(hs ! nat i) c")
      case (Return c')
      obtain j c'' t where r: "Next_loop hs (i + 1) c' = (j, c'', t)"
        by (cases "Next_loop hs (i + 1) c'") auto
      from "1.IH"(1) [OF g Return] "1.prems" r have "int (length hs) \<le> j" by simp
      with g Return r show ?thesis by (subst Next_loop.simps) simp
    next
      case (Aborted c' post)
      have "Next_loop hs (abortIndex + 1) (post c') = (abortIndex + 1, post c', [])"
        using g by (simp add: Next_loop_past_end)
      with g Aborted show ?thesis by (subst Next_loop.simps) simp
    next
      case (CallNext c1 post)
      obtain j c2 t1 where r1: "Next_loop hs (i + 1) c1 = (j, c2, t1)"
        by (cases "Next_loop hs (i + 1) c1") auto
      from "1.IH"(3) [OF g CallNext] "1.prems" r1 have j: "int (length hs) \<le> j" by simp
      then have "Next_loop hs (j + 1) (post c2) = (j + 1, post c2, [])"
        by (simp add: Next_loop_past_end)
      with g CallNext r1 j show ?thesis by (subst Next_loop.simps) simp
    qed
  qed
qed

lemma Next_loop_Return:
  assumes "0 \<le> i" and "i < int (length hs)" and "int (length hs) < abortIndex"
    and "(hs ! nat i) c = Return c'"
  shows "Next_loop hs i c =
     (case Next_loop hs (i + 1) c' of (j, c'', t) \<Rightarrow> (j, c'', Enter (nat i) # t))"
  using assms by (subst Next_loop.simps) simp

text \<open>
  After an abort the index is \<open>abortIndex\<close>, past the end of every chain gin accepts:
  the rest of the aborting handler runs and the loop ends.
\<close>

lemma Next_loop_Aborted:
  assumes "0 \<le> i" and "i < int (length hs)" and "int (length hs) < abortIndex"
    and "(hs ! nat i) c = Aborted c' post"
  shows "Next_loop hs i c =
     (abortIndex + 1, post c', [Enter (nat i), Abort (nat i), Resume (nat i)])"
  using assms by (subst Next_loop.simps) (simp add: Next_loop_past_end)

text \<open>
  When the call of \<^verbatim>\<open>c.Next()\<close> inside a handler returns, the index is past the end,
  so the loop that invoked the handler ends after the handler's remaining code.
\<close>

lemma Next_loop_CallNext:
  assumes "0 \<le> i" and "i < int (length hs)" and "int (length hs) < abortIndex"
    and "(hs ! nat i) c = CallNext c1 post"
  shows "Next_loop hs i c =
     (case Next_loop hs (i + 1) c1 of
        (j, c2, t1) \<Rightarrow>
          (j + 1, post c2, Enter (nat i) # Proceed (nat i) # t1 @ [Resume (nat i)]))"
proof -
  obtain j c2 t1 where r1: "Next_loop hs (i + 1) c1 = (j, c2, t1)"
    by (cases "Next_loop hs (i + 1) c1") auto
  have "int (length hs) \<le> j"
    using Next_loop_exit_index [of "i + 1" hs c1] assms r1 by simp
  then have "Next_loop hs (j + 1) (post c2) = (j + 1, post c2, [])"
    by (simp add: Next_loop_past_end)
  with assms r1 show ?thesis by (subst Next_loop.simps) simp
qed

lemma Next_loop_index_bound:
  assumes "0 \<le> i" and "i \<le> int (length hs)" and "int (length hs) < abortIndex"
  shows "fst (Next_loop hs i c) \<le> abortIndex + 1 + (int (length hs) - i)"
  using assms
proof (induction hs i c rule: Next_loop.induct)
  case (1 hs i c)
  show ?case
  proof (cases "i < int (length hs)")
    case False
    with "1.prems" show ?thesis by (simp add: Next_loop_past_end abortIndex_def)
  next
    case True
    with "1.prems" have g: "0 \<le> i \<and> i < int (length hs) \<and> int (length hs) < abortIndex"
      by simp
    have i1: "0 \<le> i + 1" "i + 1 \<le> int (length hs)" using g by simp_all
    show ?thesis
    proof (cases "(hs ! nat i) c")
      case (Return c')
      obtain j c'' t where r: "Next_loop hs (i + 1) c' = (j, c'', t)"
        by (cases "Next_loop hs (i + 1) c'") auto
      from "1.IH"(1) [OF g Return i1 "1.prems"(3)] r
      have "j \<le> abortIndex + 1 + (int (length hs) - (i + 1))" by simp
      with Next_loop_Return [of i hs c c'] g Return r show ?thesis by simp
    next
      case (Aborted c' post)
      with Next_loop_Aborted [of i hs c c' post] g show ?thesis by simp
    next
      case (CallNext c1 post)
      obtain j c2 t1 where r1: "Next_loop hs (i + 1) c1 = (j, c2, t1)"
        by (cases "Next_loop hs (i + 1) c1") auto
      from "1.IH"(3) [OF g CallNext i1 "1.prems"(3)] r1
      have "j \<le> abortIndex + 1 + (int (length hs) - (i + 1))" by simp
      with Next_loop_CallNext [of i hs c c1 post] g CallNext r1 show ?thesis by simp
    qed
  qed
qed

text \<open>
  The index of a run stays within the range of an \<^verbatim>\<open>int8\<close>: the increments after an
  abort, one for each loop that is being left, do not overflow it.
\<close>

lemma index_fits_int8:
  assumes "int (length hs) < abortIndex"
  shows "fst (handleHTTPRequest hs c) \<le> 127"
  using Next_loop_index_bound [of 0 hs c] assms
  by (simp add: handleHTTPRequest_def Next_def abortIndex_def)

subsection \<open>The events of a run\<close>

text \<open>
  The events of the loop entered at index \<open>i\<close> are of handlers from \<open>i\<close> on. If handler
  \<open>k\<close> aborts in it, no event is of a handler beyond \<open>k\<close>, and every handler that called
  \<^verbatim>\<open>c.Next()\<close> resumes after the abort, as does handler \<open>k\<close> itself.
\<close>

lemma Next_loop_trace:
  assumes "0 \<le> i" and "int (length hs) < abortIndex"
  shows "(\<forall>e \<in> set (trace_of (Next_loop hs i c)). nat i \<le> handler_of e) \<and>
     (\<forall>k. Abort k \<in> set (trace_of (Next_loop hs i c)) \<longrightarrow>
        (\<forall>e \<in> set (trace_of (Next_loop hs i c)). handler_of e \<le> k) \<and>
        Resume k \<in> set (after_abort k (trace_of (Next_loop hs i c))) \<and>
        (\<forall>m. Proceed m \<in> set (trace_of (Next_loop hs i c)) \<longrightarrow>
             m < k \<and> Resume m \<in> set (after_abort k (trace_of (Next_loop hs i c)))))"
  using assms
proof (induction hs i c rule: Next_loop.induct)
  case (1 hs i c)
  show ?case
  proof (cases "i < int (length hs)")
    case False
    then show ?thesis by (simp add: Next_loop_past_end trace_of_def)
  next
    case True
    with "1.prems" have g: "0 \<le> i \<and> i < int (length hs) \<and> int (length hs) < abortIndex"
      by simp
    have i1: "0 \<le> i + 1" using g by simp
    show ?thesis
    proof (cases "(hs ! nat i) c")
      case (Return c')
      obtain j c'' t where r: "Next_loop hs (i + 1) c' = (j, c'', t)"
        by (cases "Next_loop hs (i + 1) c'") auto
      have eq: "trace_of (Next_loop hs i c) = Enter (nat i) # t"
        using Next_loop_Return [of i hs c c'] g Return r by (simp add: trace_of_def)
      from "1.IH"(1) [OF g Return i1 "1.prems"(2)] r
      have ih: "(\<forall>e \<in> set t. nat (i + 1) \<le> handler_of e) \<and>
         (\<forall>k. Abort k \<in> set t \<longrightarrow> (\<forall>e \<in> set t. handler_of e \<le> k) \<and>
            Resume k \<in> set (after_abort k t) \<and>
            (\<forall>m. Proceed m \<in> set t \<longrightarrow> m < k \<and> Resume m \<in> set (after_abort k t)))"
        by (simp add: trace_of_def)
      have lo: "\<forall>e \<in> set t. nat i \<le> handler_of e"
        using ih g by auto
      show ?thesis
        unfolding eq using ih lo g
        by (auto simp: after_abort_def nat_add_distrib)
    next
      case (Aborted c' post)
      have eq: "trace_of (Next_loop hs i c) = [Enter (nat i), Abort (nat i), Resume (nat i)]"
        using Next_loop_Aborted [of i hs c c' post] g Aborted by (simp add: trace_of_def)
      show ?thesis unfolding eq by (simp add: after_abort_def)
    next
      case (CallNext c1 post)
      obtain j c2 t1 where r1: "Next_loop hs (i + 1) c1 = (j, c2, t1)"
        by (cases "Next_loop hs (i + 1) c1") auto
      have eq: "trace_of (Next_loop hs i c) =
          Enter (nat i) # Proceed (nat i) # t1 @ [Resume (nat i)]"
        using Next_loop_CallNext [of i hs c c1 post] g CallNext r1 by (simp add: trace_of_def)
      from "1.IH"(3) [OF g CallNext i1 "1.prems"(2)] r1
      have ih: "(\<forall>e \<in> set t1. nat (i + 1) \<le> handler_of e) \<and>
         (\<forall>k. Abort k \<in> set t1 \<longrightarrow> (\<forall>e \<in> set t1. handler_of e \<le> k) \<and>
            Resume k \<in> set (after_abort k t1) \<and>
            (\<forall>m. Proceed m \<in> set t1 \<longrightarrow>
               m < k \<and> Resume m \<in> set (after_abort k t1)))"
        by (simp add: trace_of_def)
      have lo: "\<forall>e \<in> set t1. nat i < handler_of e"
        using ih g by (auto simp: nat_add_distrib)
      have drop: "after_abort k (Enter (nat i) # Proceed (nat i) # t1 @ [Resume (nat i)]) =
          after_abort k t1 @ [Resume (nat i)]" if "Abort k \<in> set t1" for k
        using that by (simp add: after_abort_def dropWhile_append1)
      show ?thesis
        unfolding eq
      proof (intro conjI allI impI ballI)
        fix e assume "e \<in> set (Enter (nat i) # Proceed (nat i) # t1 @ [Resume (nat i)])"
        then show "nat i \<le> handler_of e" using lo by auto
      next
        fix k e
        assume a: "Abort k \<in> set (Enter (nat i) # Proceed (nat i) # t1 @ [Resume (nat i)])"
          and e: "e \<in> set (Enter (nat i) # Proceed (nat i) # t1 @ [Resume (nat i)])"
        from a have a1: "Abort k \<in> set t1" by simp
        with lo have "nat i < k" by force
        with e ih a1 show "handler_of e \<le> k" by auto
      next
        fix k
        assume a: "Abort k \<in> set (Enter (nat i) # Proceed (nat i) # t1 @ [Resume (nat i)])"
        then have a1: "Abort k \<in> set t1" by simp
        with ih show "Resume k \<in>
            set (after_abort k (Enter (nat i) # Proceed (nat i) # t1 @ [Resume (nat i)]))"
          by (simp add: drop [OF a1])
      next
        fix k m
        assume a: "Abort k \<in> set (Enter (nat i) # Proceed (nat i) # t1 @ [Resume (nat i)])"
          and p: "Proceed m \<in> set (Enter (nat i) # Proceed (nat i) # t1 @ [Resume (nat i)])"
        from a have a1: "Abort k \<in> set t1" by simp
        with lo have ik: "nat i < k" by force
        from p have "m = nat i \<or> Proceed m \<in> set t1" by simp
        then show "m < k"
          using ih a1 ik by auto
      next
        fix k m
        assume a: "Abort k \<in> set (Enter (nat i) # Proceed (nat i) # t1 @ [Resume (nat i)])"
          and p: "Proceed m \<in> set (Enter (nat i) # Proceed (nat i) # t1 @ [Resume (nat i)])"
        from a have a1: "Abort k \<in> set t1" by simp
        from p have "m = nat i \<or> Proceed m \<in> set t1" by simp
        then show "Resume m \<in>
            set (after_abort k (Enter (nat i) # Proceed (nat i) # t1 @ [Resume (nat i)]))"
          using ih a1 by (auto simp: drop [OF a1])
      qed
    qed
  qed
qed

text \<open>A run in which a handler aborts ends with the context aborted.\<close>

lemma Next_loop_abort_index:
  assumes "0 \<le> i" and "int (length hs) < abortIndex"
    and "Abort k \<in> set (trace_of (Next_loop hs i c))"
  shows "abortIndex \<le> fst (Next_loop hs i c)"
  using assms
proof (induction hs i c rule: Next_loop.induct)
  case (1 hs i c)
  show ?case
  proof (cases "i < int (length hs)")
    case False
    with "1.prems" show ?thesis by (simp add: Next_loop_past_end trace_of_def)
  next
    case True
    with "1.prems" have g: "0 \<le> i \<and> i < int (length hs) \<and> int (length hs) < abortIndex"
      by simp
    have i1: "0 \<le> i + 1" using g by simp
    show ?thesis
    proof (cases "(hs ! nat i) c")
      case (Return c')
      obtain j c'' t where r: "Next_loop hs (i + 1) c' = (j, c'', t)"
        by (cases "Next_loop hs (i + 1) c'") auto
      have eq: "Next_loop hs i c = (j, c'', Enter (nat i) # t)"
        using Next_loop_Return [of i hs c c'] g Return r by simp
      from "1.prems"(3) eq have "Abort k \<in> set (trace_of (Next_loop hs (i + 1) c'))"
        by (simp add: trace_of_def r)
      from "1.IH"(1) [OF g Return i1 "1.prems"(2) this] r eq show ?thesis by simp
    next
      case (Aborted c' post)
      show ?thesis
        using Next_loop_Aborted [of i hs c c' post] g Aborted by simp
    next
      case (CallNext c1 post)
      obtain j c2 t1 where r1: "Next_loop hs (i + 1) c1 = (j, c2, t1)"
        by (cases "Next_loop hs (i + 1) c1") auto
      have eq: "Next_loop hs i c =
          (j + 1, post c2, Enter (nat i) # Proceed (nat i) # t1 @ [Resume (nat i)])"
        using Next_loop_CallNext [of i hs c c1 post] g CallNext r1 by simp
      from "1.prems"(3) eq have "Abort k \<in> set (trace_of (Next_loop hs (i + 1) c1))"
        by (simp add: trace_of_def r1)
      from "1.IH"(3) [OF g CallNext i1 "1.prems"(2) this] r1 eq show ?thesis by simp
    qed
  qed
qed

lemmas chain_example_defs =
  chain_abort_def chain_root_def Middleware1_def Middleware2_def Middleware3_def
  handler_abort_def handler_root_def request_abort_def request_def
  AbortWithStatusJSON_def Println_def JSON_def Query_def Let_def

text \<open>
  Claim C2. Take a chain that gin accepts and a request in whose run handler \<open>k\<close>
  aborts. Then no handler after \<open>k\<close> is invoked (every event of the run is of a handler
  up to \<open>k\<close>, so neither a later interceptor nor the terminal handler runs); the code of
  handler \<open>k\<close> after its abort runs; every handler that had called \<^verbatim>\<open>c.Next()\<close>, which
  are handlers before \<open>k\<close>, runs its code after \<^verbatim>\<open>c.Next()\<close> once the abort has
  happened; and the run ends aborted.
\<close>

theorem abort_stops_chain_and_unwinds:
  assumes "int (length hs) < abortIndex"
    and "Abort k \<in> set (trace_of (handleHTTPRequest hs c))"
  shows "(\<forall>j. Enter j \<in> set (trace_of (handleHTTPRequest hs c)) \<longrightarrow> j \<le> k) \<and>
     Resume k \<in> set (after_abort k (trace_of (handleHTTPRequest hs c))) \<and>
     (\<forall>m. Proceed m \<in> set (trace_of (handleHTTPRequest hs c)) \<longrightarrow>
        m < k \<and> Resume m \<in> set (after_abort k (trace_of (handleHTTPRequest hs c)))) \<and>
     IsAborted (handleHTTPRequest hs c)"
proof -
  have run: "handleHTTPRequest hs c = Next_loop hs 0 c"
    by (simp add: handleHTTPRequest_def Next_def)
  from assms(2) have a: "Abort k \<in> set (trace_of (Next_loop hs 0 c))"
    by (simp add: run)
  from Next_loop_trace [of 0 hs c] assms(1) a
  have le: "\<forall>e \<in> set (trace_of (Next_loop hs 0 c)). handler_of e \<le> k"
    and rk: "Resume k \<in> set (after_abort k (trace_of (Next_loop hs 0 c)))"
    and rm: "\<forall>m. Proceed m \<in> set (trace_of (Next_loop hs 0 c)) \<longrightarrow>
        m < k \<and> Resume m \<in> set (after_abort k (trace_of (Next_loop hs 0 c)))"
    by simp_all
  have enter: "\<forall>j. Enter j \<in> set (trace_of (Next_loop hs 0 c)) \<longrightarrow> j \<le> k"
    using le by force
  have ab: "IsAborted (Next_loop hs 0 c)"
    using Next_loop_abort_index [of 0 hs k c] assms(1) a by (simp add: IsAborted_def)
  from enter rk rm ab show ?thesis by (simp add: run)
qed


theorem abort_stops_chain_and_unwinds_witness:
  "Abort 1 \<in> set (trace_of (handleHTTPRequest chain_abort request_abort)) \<and>
   Enter 2 \<notin> set (trace_of (handleHTTPRequest chain_abort request_abort)) \<and>
   Enter 3 \<notin> set (trace_of (handleHTTPRequest chain_abort request_abort)) \<and>
   Resume 1 \<in> set (after_abort 1 (trace_of (handleHTTPRequest chain_abort request_abort))) \<and>
   Resume 0 \<in> set (after_abort 1 (trace_of (handleHTTPRequest chain_abort request_abort))) \<and>
   IsAborted (handleHTTPRequest chain_abort request_abort) \<and>
   stdout (ctx_of (handleHTTPRequest chain_abort request_abort)) =
     [[CHR 0xE2, CHR 0x86, CHR 0x92] @ '' M1 '' @ [CHR 0xE8, CHR 0xBF, CHR 0x9B, CHR 0xE5, CHR 0x85, CHR 0xA5],
      ''  '' @ [CHR 0xE2, CHR 0x86, CHR 0x92] @ '' M2 '' @ [CHR 0xE8, CHR 0xBF, CHR 0x9B, CHR 0xE5, CHR 0x85, CHR 0xA5],
      ''  '' @ [CHR 0xE2, CHR 0x9C, CHR 0x97] @ '' M2 '' @ [CHR 0xE7, CHR 0xBB, CHR 0x88, CHR 0xE6, CHR 0xAD, CHR 0xA2, CHR 0xE8, CHR 0xAF, CHR 0xB7, CHR 0xE6, CHR 0xB1, CHR 0x82],
      ''  '' @ [CHR 0xE2, CHR 0x86, CHR 0x90] @ '' M2 '' @ [CHR 0xE9, CHR 0x80, CHR 0x80, CHR 0xE5, CHR 0x87, CHR 0xBA, CHR 0xEF, CHR 0xBC, CHR 0x88] @ ''Abort '' @ [CHR 0xE5, CHR 0x90, CHR 0x8E, CHR 0xEF, CHR 0xBC, CHR 0x89],
      [CHR 0xE2, CHR 0x86, CHR 0x90] @ '' M1 '' @ [CHR 0xE9, CHR 0x80, CHR 0x80, CHR 0xE5, CHR 0x87, CHR 0xBA]] \<and>
   written (ctx_of (handleHTTPRequest chain_abort request_abort)) =
     [\<lparr>status = 400, body = H_message_terminated\<rparr>]"
proof -
  have run: "handleHTTPRequest chain_abort request_abort =
      (65, ctx_of (handleHTTPRequest chain_abort request_abort),
       [Enter 0, Proceed 0, Enter 1, Abort 1, Resume 1, Resume 0])"
    by (simp add: handleHTTPRequest_def Next_def ctx_of_def Next_loop.simps abortIndex_def
        chain_example_defs)
  have out: "stdout (ctx_of (handleHTTPRequest chain_abort request_abort)) =
     [[CHR 0xE2, CHR 0x86, CHR 0x92] @ '' M1 '' @ [CHR 0xE8, CHR 0xBF, CHR 0x9B, CHR 0xE5, CHR 0x85, CHR 0xA5],
      ''  '' @ [CHR 0xE2, CHR 0x86, CHR 0x92] @ '' M2 '' @ [CHR 0xE8, CHR 0xBF, CHR 0x9B, CHR 0xE5, CHR 0x85, CHR 0xA5],
      ''  '' @ [CHR 0xE2, CHR 0x9C, CHR 0x97] @ '' M2 '' @ [CHR 0xE7, CHR 0xBB, CHR 0x88, CHR 0xE6, CHR 0xAD, CHR 0xA2, CHR 0xE8, CHR 0xAF, CHR 0xB7, CHR 0xE6, CHR 0xB1, CHR 0x82],
      ''  '' @ [CHR 0xE2, CHR 0x86, CHR 0x90] @ '' M2 '' @ [CHR 0xE9, CHR 0x80, CHR 0x80, CHR 0xE5, CHR 0x87, CHR 0xBA, CHR 0xEF, CHR 0xBC, CHR 0x88] @ ''Abort '' @ [CHR 0xE5, CHR 0x90, CHR 0x8E, CHR 0xEF, CHR 0xBC, CHR 0x89],
      [CHR 0xE2, CHR 0x86, CHR 0x90] @ '' M1 '' @ [CHR 0xE9, CHR 0x80, CHR 0x80, CHR 0xE5, CHR 0x87, CHR 0xBA]]"
    by (simp add: handleHTTPRequest_def Next_def ctx_of_def Next_loop.simps abortIndex_def
        chain_example_defs)
  have resp: "written (ctx_of (handleHTTPRequest chain_abort request_abort)) =
     [\<lparr>status = 400, body = H_message_terminated\<rparr>]"
    by (simp add: handleHTTPRequest_def Next_def ctx_of_def Next_loop.simps abortIndex_def
        chain_example_defs StatusBadRequest_def)
  have tr: "trace_of (handleHTTPRequest chain_abort request_abort) =
      [Enter 0, Proceed 0, Enter 1, Abort 1, Resume 1, Resume 0]"
    by (subst run) (simp add: trace_of_def)
  have len: "int (length chain_abort) < abortIndex"
    by (simp add: chain_abort_def abortIndex_def)
  have ab: "Abort 1 \<in> set (trace_of (handleHTTPRequest chain_abort request_abort))"
    by (simp add: tr)
  from abort_stops_chain_and_unwinds [OF len ab]
  have no_later: "\<forall>j. Enter j \<in> set (trace_of (handleHTTPRequest chain_abort request_abort))
        \<longrightarrow> j \<le> 1"
    and r1: "Resume 1 \<in> set (after_abort 1 (trace_of (handleHTTPRequest chain_abort request_abort)))"
    and rm: "\<forall>m. Proceed m \<in> set (trace_of (handleHTTPRequest chain_abort request_abort)) \<longrightarrow>
        m < 1 \<and>
        Resume m \<in> set (after_abort 1 (trace_of (handleHTTPRequest chain_abort request_abort)))"
    and aborted: "IsAborted (handleHTTPRequest chain_abort request_abort)"
    by simp_all
  from no_later have e2: "Enter 2 \<notin> set (trace_of (handleHTTPRequest chain_abort request_abort))"
    by force
  from no_later have e3: "Enter 3 \<notin> set (trace_of (handleHTTPRequest chain_abort request_abort))"
    by force
  have "Proceed 0 \<in> set (trace_of (handleHTTPRequest chain_abort request_abort))"
    by (simp add: tr)
  with rm have r0:
    "Resume 0 \<in> set (after_abort 1 (trace_of (handleHTTPRequest chain_abort request_abort)))"
    by blast
  from ab e2 e3 r1 r0 aborted out resp show ?thesis by simp
qed

text \<open>
  The same chain on a request that does not ask for the abort: every middleware is
  entered in the order of registration, the handler runs, and the middlewares resume in
  the reverse order, as the comment at the end of the source says.
\<close>

lemma chain_root_normal_run:
  "trace_of (handleHTTPRequest chain_root request) =
     [Enter 0, Proceed 0, Enter 1, Proceed 1, Enter 2, Proceed 2, Enter 3,
      Resume 2, Resume 1, Resume 0] \<and>
   stdout (ctx_of (handleHTTPRequest chain_root request)) =
     [[CHR 0xE2, CHR 0x86, CHR 0x92] @ '' M1 '' @ [CHR 0xE8, CHR 0xBF, CHR 0x9B, CHR 0xE5, CHR 0x85, CHR 0xA5],
      ''  '' @ [CHR 0xE2, CHR 0x86, CHR 0x92] @ '' M2 '' @ [CHR 0xE8, CHR 0xBF, CHR 0x9B, CHR 0xE5, CHR 0x85, CHR 0xA5],
      ''    '' @ [CHR 0xE2, CHR 0x86, CHR 0x92] @ '' M3 '' @ [CHR 0xE8, CHR 0xBF, CHR 0x9B, CHR 0xE5, CHR 0x85, CHR 0xA5],
      ''>>> Handler '' @ [CHR 0xE6, CHR 0x89, CHR 0xA7, CHR 0xE8, CHR 0xA1, CHR 0x8C],
      ''    '' @ [CHR 0xE2, CHR 0x86, CHR 0x90] @ '' M3 '' @ [CHR 0xE9, CHR 0x80, CHR 0x80, CHR 0xE5, CHR 0x87, CHR 0xBA],
      ''  '' @ [CHR 0xE2, CHR 0x86, CHR 0x90] @ '' M2 '' @ [CHR 0xE9, CHR 0x80, CHR 0x80, CHR 0xE5, CHR 0x87, CHR 0xBA],
      [CHR 0xE2, CHR 0x86, CHR 0x90] @ '' M1 '' @ [CHR 0xE9, CHR 0x80, CHR 0x80, CHR 0xE5, CHR 0x87, CHR 0xBA]]"
  by (simp add: handleHTTPRequest_def Next_def ctx_of_def trace_of_def Next_loop.simps
      abortIndex_def chain_example_defs)

section \<open>Properties of the tokens\<close>

lemmas token_example_defs =
  GetSigningMethod_def signingMethods_def Validate_def Let_def
  hs384_token_def none_token_def admin_token_def admin_claims_def jwtSecret_def
  Hour_def Second_def

text \<open>An instant lies before every later whole second.\<close>

lemma before_later_second:
  assumes "NewNumericDate a < NewNumericDate b"
  shows "a < NewNumericDate b"
proof -
  have S: "0 < Second" by (simp add: Second_def)
  have ta: "NewNumericDate a = (a div Second) * Second"
    by (simp add: NewNumericDate_def minus_mod_eq_div_mult)
  have tb: "NewNumericDate b = (b div Second) * Second"
    by (simp add: NewNumericDate_def minus_mod_eq_div_mult)
  from assms ta tb S have "a div Second < b div Second" by simp
  then have "a div Second + 1 \<le> b div Second" by simp
  then have "(a div Second + 1) * Second \<le> (b div Second) * Second"
    using S by (simp only: mult_le_cancel_right) simp
  moreover have "a < (a div Second + 1) * Second"
  proof -
    have "a = (a div Second) * Second + a mod Second" by simp
    moreover have "a mod Second < Second" using S by simp
    ultimately have "a < (a div Second) * Second + Second" by linarith
    then show ?thesis by (simp add: distrib_right)
  qed
  ultimately show ?thesis using tb by simp
qed

lemma Verify_not_HMAC: "\<not> is_HMAC m \<Longrightarrow> Verify m alg claims sig key \<noteq> None"
  by (cases m) simp_all

text \<open>The names that the registry maps to an HMAC method.\<close>

lemma HMAC_names:
  assumes "GetSigningMethod name = Some m" and "is_HMAC m"
  shows "name = ''HS256'' \<or> name = ''HS384'' \<or> name = ''HS512''"
  using assms
  by (auto simp: GetSigningMethod_def signingMethods_def split: if_splits)

lemma parseToken_unknown_alg:
  assumes "GetSigningMethod name = None"
  shows "parseToken secret now (Segments (Some name) claims sig) = Inl ErrTokenUnverifiable"
  using assms by (simp add: parseToken_def ParseWithClaims_def)

lemma parseToken_not_HMAC:
  assumes "GetSigningMethod name = Some m" and "\<not> is_HMAC m"
  shows "\<exists>e. parseToken secret now (Segments (Some name) claims sig) =
     Inl (ErrTokenSignatureInvalid e)"
  using assms Verify_not_HMAC [OF assms(2), of "Some name" claims sig secret]
  by (auto simp: parseToken_def ParseWithClaims_def Let_def)

lemma ParseToken_unknown_alg:
  assumes "GetSigningMethod name = None"
  shows "ParseToken secret now (Segments (Some name) claims sig) = Inl ErrTokenUnverifiable"
  using assms by (simp add: ParseToken_def ParseWithClaims_def)

lemma ParseToken_not_HMAC:
  assumes "GetSigningMethod name = Some m" and "\<not> is_HMAC m"
  shows "ParseToken secret now (Segments (Some name) claims sig) = Inl ErrTokenUnverifiable"
  using assms by (simp add: ParseToken_def ParseWithClaims_def Let_def)

subsection \<open>The algorithm of the header\<close>

text \<open>
  Claim C1, as stated: every token whose header declares an algorithm other than HS256 is
  refused. It is not: a token that declares HS384 and carries the HMAC-SHA384 of its
  header and claims under the secret of the course is accepted by \<open>ParseToken\<close>, whose key
  function admits every HMAC method, and by \<open>parseToken\<close>, whose key function does not
  look at the method; both return its claims. The method that verifies is the one the
  header names.
\<close>

theorem other_algorithm_rejected_counterexample:
  "GetSigningMethod ''HS384'' = Some (SigningMethodHMAC ''HS384'' 384) \<and>
   SigningMethodHMAC ''HS384'' 384 \<noteq> SigningMethodHS256 \<and>
   ParseToken jwtSecret 0 hs384_token = Inr admin_claims \<and>
   parseToken jwtSecret 0 hs384_token = Inr admin_claims"
  by (simp add: ParseToken_def parseToken_def ParseWithClaims_def SigningMethodHS256_def
      token_example_defs)

text \<open>
  What the two parsers answer to a token whose header names one of the HMAC methods of
  the registry: the signature is compared with the HMAC of that method under the secret,
  then the claims are validated.
\<close>

lemma parseToken_HMAC:
  assumes "GetSigningMethod name = Some (SigningMethodHMAC name' bits)"
  shows "parseToken secret now (Segments (Some name) claims sig) =
     (if sig = HMAC_SHA bits secret (Some name) claims
      then (case Validate now claims of
              [] \<Rightarrow> Inr claims
            | e # es \<Rightarrow> Inl (ErrTokenInvalidClaims (e # es)))
      else Inl (ErrTokenSignatureInvalid ErrSignatureInvalid))"
  using assms by (simp add: parseToken_def ParseWithClaims_def Let_def split: list.splits)

lemma ParseToken_HMAC:
  assumes "GetSigningMethod name = Some (SigningMethodHMAC name' bits)"
  shows "ParseToken secret now (Segments (Some name) claims sig) =
     (if sig = HMAC_SHA bits secret (Some name) claims
      then (case Validate now claims of
              [] \<Rightarrow> Inr claims
            | e # es \<Rightarrow> Inl (ErrTokenInvalidClaims (e # es)))
      else Inl (ErrTokenSignatureInvalid ErrSignatureInvalid))"
  using assms by (simp add: ParseToken_def ParseWithClaims_def Let_def split: list.splits)

lemma GetSigningMethod_HS384:
  "GetSigningMethod ''HS384'' = Some (SigningMethodHMAC ''HS384'' 384)"
  by (simp add: GetSigningMethod_def signingMethods_def)

lemma GetSigningMethod_HS512:
  "GetSigningMethod ''HS512'' = Some (SigningMethodHMAC ''HS512'' 512)"
  by (simp add: GetSigningMethod_def signingMethods_def)

text \<open>
  Claim C1, amended. Take a token whose header declares an algorithm other than HS256,
  with any claims and any signature, any secret and any instant. \<open>parseToken\<close> and
  \<open>ParseToken\<close> accept it, and return its claims, exactly when the declared algorithm is
  HS384 or HS512, the signature is the HMAC of that kind of the token's header and claims
  under the secret, and the claims are in their validity period at that instant (the
  validator finds no error). In every other case both refuse it with an error: so for
  every algorithm that is not an HMAC algorithm, and for \<^verbatim>\<open>none\<close>, whatever the
  signature; for HS384 and HS512 with any other signature; and for claims that are
  expired or not yet valid. A token whose header declares no algorithm is refused too.
\<close>

theorem other_algorithm_accepted_only_with_valid_HMAC:
  assumes "name \<noteq> ''HS256''"
  shows "(if (name = ''HS384'' \<and> sig = HMAC_SHA 384 secret (Some name) claims \<or>
          name = ''HS512'' \<and> sig = HMAC_SHA 512 secret (Some name) claims) \<and>
         Validate now claims = []
      then parseToken secret now (Segments (Some name) claims sig) = Inr claims \<and>
           ParseToken secret now (Segments (Some name) claims sig) = Inr claims
      else isl (parseToken secret now (Segments (Some name) claims sig)) \<and>
           isl (ParseToken secret now (Segments (Some name) claims sig))) \<and>
     isl (parseToken secret now (Segments None claims sig)) \<and>
     isl (ParseToken secret now (Segments None claims sig))"
proof -
  have none: "isl (parseToken secret now (Segments None claims sig)) \<and>
      isl (ParseToken secret now (Segments None claims sig))"
    by (simp add: parseToken_def ParseToken_def ParseWithClaims_def)
  have some: "if (name = ''HS384'' \<and> sig = HMAC_SHA 384 secret (Some name) claims \<or>
          name = ''HS512'' \<and> sig = HMAC_SHA 512 secret (Some name) claims) \<and>
         Validate now claims = []
      then parseToken secret now (Segments (Some name) claims sig) = Inr claims \<and>
           ParseToken secret now (Segments (Some name) claims sig) = Inr claims
      else isl (parseToken secret now (Segments (Some name) claims sig)) \<and>
           isl (ParseToken secret now (Segments (Some name) claims sig))"
  proof (cases "GetSigningMethod name")
    case None
    then have "name \<noteq> ''HS384''" and "name \<noteq> ''HS512''"
      using GetSigningMethod_HS384 GetSigningMethod_HS512 by auto
    with parseToken_unknown_alg [OF None] ParseToken_unknown_alg [OF None]
    show ?thesis by simp
  next
    case (Some m)
    show ?thesis
    proof (cases "is_HMAC m")
      case False
      then have "name \<noteq> ''HS384''" and "name \<noteq> ''HS512''"
        using Some GetSigningMethod_HS384 GetSigningMethod_HS512 by auto
      with parseToken_not_HMAC [OF Some False, of secret now claims sig]
        ParseToken_not_HMAC [OF Some False]
      show ?thesis by auto
    next
      case True
      from HMAC_names [OF Some True] assms
      consider "name = ''HS384''" | "name = ''HS512''" by blast
      then show ?thesis
      proof cases
        case 1
        have m: "GetSigningMethod name = Some (SigningMethodHMAC ''HS384'' 384)"
          unfolding 1 by (rule GetSigningMethod_HS384)
        show ?thesis
          unfolding parseToken_HMAC [OF m] ParseToken_HMAC [OF m]
          by (simp add: 1 split: list.splits)
      next
        case 2
        have m: "GetSigningMethod name = Some (SigningMethodHMAC ''HS512'' 512)"
          unfolding 2 by (rule GetSigningMethod_HS512)
        show ?thesis
          unfolding parseToken_HMAC [OF m] ParseToken_HMAC [OF m]
          by (simp add: 2 split: list.splits)
      qed
    qed
  qed
  from some none show ?thesis by (rule conjI)
qed

theorem other_algorithm_accepted_only_with_valid_HMAC_witness:
  "(''HS384'' \<noteq> ''HS256'' \<and> ''HS512'' \<noteq> ''HS256'' \<and> ''none'' \<noteq> ''HS256'' \<and>
    ''RS256'' \<noteq> ''HS256'') \<and>
   (parseToken jwtSecret 0 hs384_token = Inr admin_claims \<and>
    ParseToken jwtSecret 0 hs384_token = Inr admin_claims) \<and>
   (parseToken jwtSecret 0 hs512_token = Inr admin_claims \<and>
    ParseToken jwtSecret 0 hs512_token = Inr admin_claims) \<and>
   (isl (parseToken jwtSecret (2 * Hour) hs384_token) \<and>
    isl (ParseToken jwtSecret (2 * Hour) hs384_token)) \<and>
   (isl (parseToken jwtSecret 0 hs384_forged_token) \<and>
    isl (ParseToken jwtSecret 0 hs384_forged_token)) \<and>
   (isl (parseToken jwtSecret 0 none_token) \<and> isl (ParseToken jwtSecret 0 none_token)) \<and>
   (isl (parseToken jwtSecret 0 rs256_token) \<and> isl (ParseToken jwtSecret 0 rs256_token))"
proof -
  have names: "''HS384'' \<noteq> ''HS256''" "''HS512'' \<noteq> ''HS256''" "''none'' \<noteq> ''HS256''"
      "''RS256'' \<noteq> ''HS256''"
    by simp_all
  have valid: "Validate 0 admin_claims = []" "Validate (2 * Hour) admin_claims \<noteq> []"
    by (simp_all add: Validate_def admin_claims_def Hour_def Second_def)
  note dichotomy = other_algorithm_accepted_only_with_valid_HMAC
  have a: "parseToken jwtSecret 0 hs384_token = Inr admin_claims \<and>
      ParseToken jwtSecret 0 hs384_token = Inr admin_claims"
    using dichotomy [OF names(1), of "HMAC_SHA 384 jwtSecret (Some ''HS384'') admin_claims"
        jwtSecret admin_claims 0] valid
    by (simp add: hs384_token_def)
  have b: "parseToken jwtSecret 0 hs512_token = Inr admin_claims \<and>
      ParseToken jwtSecret 0 hs512_token = Inr admin_claims"
    using dichotomy [OF names(2), of "HMAC_SHA 512 jwtSecret (Some ''HS512'') admin_claims"
        jwtSecret admin_claims 0] valid
    by (simp add: hs512_token_def)
  have c: "isl (parseToken jwtSecret (2 * Hour) hs384_token) \<and>
      isl (ParseToken jwtSecret (2 * Hour) hs384_token)"
    using dichotomy [OF names(1), of "HMAC_SHA 384 jwtSecret (Some ''HS384'') admin_claims"
        jwtSecret admin_claims "2 * Hour"] valid
    by (simp add: hs384_token_def)
  have d: "isl (parseToken jwtSecret 0 hs384_forged_token) \<and>
      isl (ParseToken jwtSecret 0 hs384_forged_token)"
    using dichotomy [OF names(1), of "HMAC_SHA 384 ''guess'' (Some ''HS384'') admin_claims"
        jwtSecret admin_claims 0]
    by (simp add: hs384_forged_token_def jwtSecret_def)
  have e: "isl (parseToken jwtSecret 0 none_token) \<and> isl (ParseToken jwtSecret 0 none_token)"
    using dichotomy [OF names(3), of "OtherSignature []" jwtSecret admin_claims 0]
    by (simp add: none_token_def)
  have f: "isl (parseToken jwtSecret 0 rs256_token) \<and> isl (ParseToken jwtSecret 0 rs256_token)"
    using dichotomy [OF names(4), of "HMAC_SHA 256 jwtSecret (Some ''RS256'') admin_claims"
        jwtSecret admin_claims 0]
    by (simp add: rs256_token_def)
  from names a b c d e f show ?thesis by simp
qed

subsection \<open>Issue, then verify\<close>

text \<open>Whole seconds, and the integers that a \<^verbatim>\<open>float64\<close> holds exactly.\<close>

lemma NewNumericDate_seconds: "NewNumericDate (k * Second) = k * Second"
  by (simp add: NewNumericDate_def)

lemma NewNumericDate_div: "NewNumericDate t div Second = t div Second"
proof -
  have "NewNumericDate t = (t div Second) * Second"
    by (simp add: NewNumericDate_def minus_mod_eq_div_mult)
  then show ?thesis by (simp add: Second_def)
qed

lemma NewNumericDate_as_seconds: "NewNumericDate t = (t div Second) * Second"
  by (simp add: NewNumericDate_def minus_mod_eq_div_mult)

lemma bit_len_bound: "n < 2 ^ k \<Longrightarrow> bit_len n \<le> k"
proof (induction n arbitrary: k rule: bit_len.induct)
  case (1 n)
  show ?case
  proof (cases "n = 0")
    case True
    then show ?thesis by (simp add: bit_len.simps)
  next
    case False
    with 1(2) obtain j where k: "k = Suc j" by (cases k) auto
    from 1(2) k have "n div 2 < 2 ^ j" by simp
    from 1(1) [OF False this] False k show ?thesis
      by (subst bit_len.simps) simp
  qed
qed

lemma bit_len_eq: "2 ^ k \<le> n \<Longrightarrow> n < 2 ^ Suc k \<Longrightarrow> bit_len n = Suc k"
proof (induction k arbitrary: n)
  case 0
  then have "n = 1" by simp
  then show ?case by (simp add: bit_len.simps)
next
  case (Suc k)
  from Suc.prems have a: "2 ^ k \<le> n div 2" and b: "n div 2 < 2 ^ Suc k" and c: "n \<noteq> 0"
    by auto
  from Suc.IH [OF a b] c show ?case
    by (subst bit_len.simps) simp
qed

text \<open>Every integer below \<open>2\<^sup>5\<^sup>3\<close> in absolute value is a \<^verbatim>\<open>float64\<close>.\<close>

lemma float64_exact:
  assumes "\<bar>n\<bar> < 2 ^ 53"
  shows "float64_of_int n = n"
proof -
  have "nat \<bar>n\<bar> < 2 ^ 53" using assms by (simp add: nat_less_iff)
  from bit_len_bound [OF this] have e: "bit_len (nat \<bar>n\<bar>) - 53 = 0" by simp
  show ?thesis
    by (simp add: float64_of_int_def Let_def e mult_sgn_abs)
qed

text \<open>
  \<open>2\<^sup>5\<^sup>3 + 1\<close> is not: it lies midway between two of them and goes to the even one,
  \<open>2\<^sup>5\<^sup>3\<close>. So does \<open>2\<^sup>5\<^sup>3 + 7201\<close>, to \<open>2\<^sup>5\<^sup>3 + 7200\<close>.
\<close>

lemma bit_len_examples:
  "bit_len 9007199254740993 = 54" "bit_len 9007199254748193 = 54"
  using bit_len_eq [of 53 9007199254740993] bit_len_eq [of 53 9007199254748193] by simp_all

lemma float64_rounds:
  "float64_of_int 9007199254740993 = 9007199254740992"
  "float64_of_int 9007199254748193 = 9007199254748192"
  by (simp_all add: float64_of_int_def Let_def bit_len_examples)

text \<open>
  What \<open>generateToken\<close> returns: the token in which a parser reads the issued claims
  after their passage through JSON.
\<close>

lemma Issuer_valid: "ToValidUTF8 ''go-web-tutorial'' = ''go-web-tutorial''"
  by (simp add: ToValidUTF8_def)

lemma generateToken_issues:
  "generateToken secret now userID username role duration =
     (let claims = \<lparr>Issuer = ''go-web-tutorial'', Subject = [], Audience = [],
                     ExpiresAt = Some (float64_of_int ((now + duration) div Second) * Second),
                     NotBefore = None,
                     IssuedAt = Some (float64_of_int (now div Second) * Second),
                     TokenID = [],
                     UserID = userID, claims_Username = ToValidUTF8 username,
                     Role = ToValidUTF8 role\<rparr>
      in Inr (Segments (Some ''HS256'') claims (HMAC_SHA 256 secret (Some ''HS256'') claims)))"
  by (simp add: generateToken_def SignedString_def NewWithClaims_def SigningMethodHS256_def
      Marshal_Claims_def Unmarshal_Claims_def Marshal_RegisteredClaims_def omitempty_def
      Marshal_string_def Marshal_NumericDate_def Issuer_valid NewNumericDate_div
      NewNumericDate_seconds Let_def)

lemma GetSigningMethod_HS256:
  "GetSigningMethod ''HS256'' = Some (SigningMethodHMAC ''HS256'' 256)"
  by (simp add: GetSigningMethod_def signingMethods_def)

text \<open>
  Claim C4, as stated: the claims that \<open>parseToken\<close> returns for a freshly issued token
  equal the issued ones field for field. They need not, in two ways, both of the JSON
  coding of the token library.
  \<^item> The user name is any Go string. Issued to the user name that is the single byte
    FF, at the epoch, for two hours, the token is accepted at the epoch, and the user
    name it returns is the three bytes EF BF BD of U+FFFD.
  \<^item> A date is read back through a \<^verbatim>\<open>float64\<close>. Issued at \<open>2\<^sup>5\<^sup>3 + 1\<close> seconds
    after the epoch for two hours, the token is accepted at that instant, and the
    issued-at and the expiry it returns are one second before the issued ones.
\<close>

theorem issued_claims_returned_counterexample:
  "NewNumericDate 0 < NewNumericDate (0 + 2 * Hour) \<and>
   (case generateToken jwtSecret 0 1 [CHR 0xFF] ''admin'' (2 * Hour) of
      Inl err \<Rightarrow> Inl err
    | Inr tokenString \<Rightarrow> parseToken jwtSecret 0 tokenString) =
     Inr (admin_claims\<lparr>claims_Username := [CHR 0xEF, CHR 0xBF, CHR 0xBD]\<rparr>) \<and>
   [CHR 0xEF, CHR 0xBF, CHR 0xBD] \<noteq> [CHR 0xFF] \<and>
   NewNumericDate (9007199254740993 * Second) <
     NewNumericDate (9007199254740993 * Second + 2 * Hour) \<and>
   NewNumericDate (9007199254740993 * Second) = 9007199254740993 * Second \<and>
   NewNumericDate (9007199254740993 * Second + 2 * Hour) = 9007199254748193 * Second \<and>
   (case generateToken jwtSecret (9007199254740993 * Second) 1 ''admin'' ''admin'' (2 * Hour) of
      Inl err \<Rightarrow> Inl err
    | Inr tokenString \<Rightarrow> parseToken jwtSecret (9007199254740993 * Second) tokenString) =
     Inr (admin_claims\<lparr>IssuedAt := Some (9007199254740992 * Second),
                        ExpiresAt := Some (9007199254748192 * Second)\<rparr>)"
proof -
  have a: "NewNumericDate 0 < NewNumericDate (0 + 2 * Hour)"
    by (simp add: NewNumericDate_def Hour_def Second_def)
  have b: "(case generateToken jwtSecret 0 1 [CHR 0xFF] ''admin'' (2 * Hour) of
      Inl err \<Rightarrow> Inl err
    | Inr tokenString \<Rightarrow> parseToken jwtSecret 0 tokenString) =
     Inr (admin_claims\<lparr>claims_Username := [CHR 0xEF, CHR 0xBF, CHR 0xBD]\<rparr>)"
    by (simp add: generateToken_issues Let_def parseToken_HMAC [OF GetSigningMethod_HS256]
        Validate_def float64_exact ToValidUTF8_def RuneError_def admin_claims_def
        Hour_def Second_def)
  have c: "NewNumericDate (9007199254740993 * Second) <
     NewNumericDate (9007199254740993 * Second + 2 * Hour)"
    "NewNumericDate (9007199254740993 * Second) = 9007199254740993 * Second"
    "NewNumericDate (9007199254740993 * Second + 2 * Hour) = 9007199254748193 * Second"
    by (simp_all add: NewNumericDate_def Hour_def Second_def)
  have d: "(case generateToken jwtSecret (9007199254740993 * Second) 1 ''admin'' ''admin''
                 (2 * Hour) of
      Inl err \<Rightarrow> Inl err
    | Inr tokenString \<Rightarrow> parseToken jwtSecret (9007199254740993 * Second) tokenString) =
     Inr (admin_claims\<lparr>IssuedAt := Some (9007199254740992 * Second),
                        ExpiresAt := Some (9007199254748192 * Second)\<rparr>)"
    by (simp add: generateToken_issues Let_def parseToken_HMAC [OF GetSigningMethod_HS256]
        Validate_def float64_rounds ToValidUTF8_def admin_claims_def Hour_def Second_def)
  from a b c d show ?thesis by simp
qed

text \<open>
  Claim C4, amended. Let \<open>generateToken\<close> issue a token at the instant \<open>now\<close> with any
  key, user id, user name, role and duration such that the issued-at second lies before
  the expiry second, and such that both seconds, counted from the epoch, are integers
  that a \<^verbatim>\<open>float64\<close> holds exactly (every instant less than \<open>2\<^sup>5\<^sup>3\<close> seconds from
  the epoch is such). Then it returns a token, and \<open>parseToken\<close> with the same key accepts
  that token at the same instant, and at every instant before the expiry, and returns
  the issued claims in which every byte of the user name and of the role that is not part
  of a well-formed UTF-8 sequence is replaced by U+FFFD. The returned claims equal the
  issued ones field for field (user id, user name, role, issuer, issued-at and expiry)
  exactly when the user name and the role are valid UTF-8.
\<close>

theorem issued_token_verifies:
  assumes "NewNumericDate now < NewNumericDate (now + duration)"
    and "float64_of_int (now div Second) = now div Second"
    and "float64_of_int ((now + duration) div Second) = (now + duration) div Second"
  shows "(let issued =
            \<lparr>Issuer = ''go-web-tutorial'', Subject = [], Audience = [],
             ExpiresAt = Some (NewNumericDate (now + duration)), NotBefore = None,
             IssuedAt = Some (NewNumericDate now), TokenID = [],
             UserID = userID, claims_Username = username, Role = role\<rparr>;
          returned =
            issued\<lparr>claims_Username := ToValidUTF8 username, Role := ToValidUTF8 role\<rparr>
      in (case generateToken secret now userID username role duration of
            Inl err \<Rightarrow> False
          | Inr tokenString \<Rightarrow>
              parseToken secret now tokenString = Inr returned \<and>
              (\<forall>later. later < NewNumericDate (now + duration) \<longrightarrow>
                 parseToken secret later tokenString = Inr returned)) \<and>
         (returned = issued \<longleftrightarrow> ValidString username \<and> ValidString role))"
proof -
  have valid: "now < NewNumericDate (now + duration)"
    using before_later_second [OF assms(1)] .
  have dates: "float64_of_int (now div Second) * Second = NewNumericDate now"
    "float64_of_int ((now + duration) div Second) * Second = NewNumericDate (now + duration)"
    by (simp_all add: assms(2,3) NewNumericDate_as_seconds)
  show ?thesis
    using valid
    by (simp add: generateToken_issues dates Let_def
        parseToken_HMAC [OF GetSigningMethod_HS256] Validate_def ValidString_def)
qed

theorem issued_token_verifies_witness:
  "NewNumericDate 0 < NewNumericDate (0 + 2 * Hour) \<and>
   float64_of_int (0 div Second) = 0 div Second \<and>
   float64_of_int ((0 + 2 * Hour) div Second) = (0 + 2 * Hour) div Second \<and>
   generateToken jwtSecret 0 1 ''admin'' ''admin'' (2 * Hour) = Inr admin_token \<and>
   parseToken jwtSecret 0 admin_token = Inr admin_claims \<and>
   parseToken jwtSecret (2 * Hour - 1) admin_token = Inr admin_claims \<and>
   ValidString ''admin''"
proof -
  have a: "NewNumericDate 0 < NewNumericDate (0 + 2 * Hour)"
    by (simp add: NewNumericDate_def Hour_def Second_def)
  have b: "float64_of_int (0 div Second) = 0 div Second"
    by (simp add: float64_exact)
  have c: "float64_of_int ((0 + 2 * Hour) div Second) = (0 + 2 * Hour) div Second"
    by (simp add: float64_exact Hour_def Second_def)
  have v: "ToValidUTF8 ''admin'' = ''admin''"
    by (simp add: ToValidUTF8_def)
  have g: "generateToken jwtSecret 0 1 ''admin'' ''admin'' (2 * Hour) = Inr admin_token"
    by (simp add: generateToken_issues Let_def float64_exact v admin_token_def admin_claims_def
        Hour_def Second_def)
  have n: "NewNumericDate (0 + 2 * Hour) = 2 * Hour" "NewNumericDate 0 = 0"
    by (simp_all add: NewNumericDate_def Hour_def Second_def)
  have l: "2 * Hour - 1 < NewNumericDate (0 + 2 * Hour)"
    by (simp add: NewNumericDate_def Hour_def Second_def)
  from issued_token_verifies [OF a b c, where secret = jwtSecret and userID = 1
      and username = "''admin''" and role = "''admin''"] g n v l
  have "parseToken jwtSecret 0 admin_token = Inr admin_claims \<and>
      parseToken jwtSecret (2 * Hour - 1) admin_token = Inr admin_claims \<and>
      ValidString ''admin''"
    by (simp add: Let_def admin_claims_def ValidString_def)
  with a b c g show ?thesis by simp
qed

text \<open>A token is refused from its expiry second on, whatever its signature.\<close>

lemma expired_token_refused:
  assumes "ExpiresAt claims = Some exp" and "exp \<le> now"
  shows "isl (parseToken secret now (Segments alg claims sig))"
  using assms
  by (auto simp: parseToken_def ParseWithClaims_def Validate_def Let_def
      split: option.splits list.splits)

section \<open>Properties of the authentication and role middleware\<close>

subsection \<open>Runs that start with an abort or a call of \<^verbatim>\<open>c.Next()\<close>\<close>

lemma run_aborts_at_first:
  assumes "int (length hs) < abortIndex" and "hs \<noteq> []" and "(hs ! 0) c = Aborted c' post"
  shows "handleHTTPRequest hs c = (abortIndex + 1, post c', [Enter 0, Abort 0, Resume 0])"
  using Next_loop_Aborted [of 0 hs c c' post] assms
  by (simp add: handleHTTPRequest_def Next_def)

lemma run_proceeds_at_first:
  assumes "int (length hs) < abortIndex" and "hs \<noteq> []" and "(hs ! 0) c = CallNext c1 post"
  shows "handleHTTPRequest hs c =
     (case Next_loop hs 1 c1 of
        (j, c2, t1) \<Rightarrow> (j + 1, post c2, Enter 0 # Proceed 0 # t1 @ [Resume 0]))"
  using Next_loop_CallNext [of 0 hs c c1 post] assms
  by (simp add: handleHTTPRequest_def Next_def)

text \<open>The loop invokes the handler at the index it is entered with.\<close>

lemma Next_loop_enters:
  assumes "0 \<le> i" and "i < int (length hs)" and "int (length hs) < abortIndex"
  shows "Enter (nat i) \<in> set (trace_of (Next_loop hs i c))"
proof (cases "(hs ! nat i) c")
  case (Return c')
  with Next_loop_Return [OF assms] show ?thesis
    by (simp add: trace_of_def split: prod.splits)
next
  case (Aborted c' post)
  with Next_loop_Aborted [OF assms] show ?thesis
    by (simp add: trace_of_def)
next
  case (CallNext c1 post)
  with Next_loop_CallNext [OF assms] show ?thesis
    by (simp add: trace_of_def split: prod.splits)
qed

subsection \<open>The shape of the header\<close>

lemma SplitN_2:
  "SplitN s sep 2 =
     (if sep \<in> set s
      then [takeWhile (\<lambda>x. x \<noteq> sep) s, tl (dropWhile (\<lambda>x. x \<noteq> sep) s)]
      else [s])"
  by (simp add: numeral_2_eq_2)

lemma SplitN_Bearer: "SplitN (''Bearer '' @ t) CHR '' '' 2 = [''Bearer'', t]"
  by (simp add: SplitN_2)

lemma split_at_sep:
  assumes "sep \<in> set s"
  shows "s = takeWhile (\<lambda>x. x \<noteq> sep) s @ sep # tl (dropWhile (\<lambda>x. x \<noteq> sep) s)"
proof -
  from assms have ne: "dropWhile (\<lambda>x. x \<noteq> sep) s \<noteq> []"
    by (simp add: dropWhile_eq_Nil_conv)
  then have "hd (dropWhile (\<lambda>x. x \<noteq> sep) s) = sep"
    using hd_dropWhile [of "\<lambda>x. x \<noteq> sep" s] by simp
  with ne have "dropWhile (\<lambda>x. x \<noteq> sep) s = sep # tl (dropWhile (\<lambda>x. x \<noteq> sep) s)"
    by (metis list.collapse)
  then show ?thesis
    by (metis takeWhile_dropWhile_id)
qed

text \<open>
  The test \<^verbatim>\<open>len(parts) != 2 || parts[0] != "Bearer"\<close> lets a header pass exactly when
  it begins with \<^verbatim>\<open>Bearer\<close> and one space.
\<close>

lemma Bearer_shape:
  "(length (SplitN h CHR '' '' 2) = 2 \<and> SplitN h CHR '' '' 2 ! 0 = ''Bearer'') =
   (take 7 h = ''Bearer '')"
proof
  assume a: "length (SplitN h CHR '' '' 2) = 2 \<and> SplitN h CHR '' '' 2 ! 0 = ''Bearer''"
  then have sp: "CHR '' '' \<in> set h"
    by (auto simp: SplitN_2 split: if_splits)
  with a have tw: "takeWhile (\<lambda>x. x \<noteq> CHR '' '') h = ''Bearer''"
    by (simp add: SplitN_2)
  from split_at_sep [OF sp] tw
  have "h = ''Bearer'' @ CHR '' '' # tl (dropWhile (\<lambda>x. x \<noteq> CHR '' '') h)"
    by simp
  then obtain t where "h = ''Bearer '' @ t" by simp
  then show "take 7 h = ''Bearer ''" by simp
next
  assume "take 7 h = ''Bearer ''"
  then have "h = ''Bearer '' @ drop 7 h"
    by (metis append_take_drop_id)
  then obtain t where h: "h = ''Bearer '' @ t" ..
  show "length (SplitN h CHR '' '' 2) = 2 \<and> SplitN h CHR '' '' 2 ! 0 = ''Bearer''"
    unfolding h SplitN_Bearer by simp
qed

lemma JWTAuthMiddleware_refuses:
  assumes "take 7 (GetHeader c ''Authorization'') \<noteq> ''Bearer ''"
  shows "JWTAuthMiddleware decode now c =
     Aborted
       (JSON StatusUnauthorized
          (H_error (if GetHeader c ''Authorization'' = [] then msg_no_auth_header
                    else msg_bad_auth_header)) c)
       (\<lambda>c. c)"
  using assms Bearer_shape [of "GetHeader c ''Authorization''"]
  by (auto simp: JWTAuthMiddleware_def Let_def)

lemma JWTAuthMiddleware_verifies:
  assumes "GetHeader c ''Authorization'' = ''Bearer '' @ t"
  shows "JWTAuthMiddleware decode now c =
     (case parseToken jwtSecret now (decode t) of
        Inl err \<Rightarrow>
          Aborted
            (JSON StatusUnauthorized (H_error msg_token_invalid)
               (c\<lparr>verified := verified c @ [t]\<rparr>))
            (\<lambda>c. c)
      | Inr claims \<Rightarrow>
          CallNext
            (Set ''role'' (VString (Role claims))
               (Set ''username'' (VString (claims_Username claims))
                  (Set ''userID'' (VUint (UserID claims)) (c\<lparr>verified := verified c @ [t]\<rparr>))))
            (\<lambda>c. c))"
proof -
  have parts: "SplitN (GetHeader c ''Authorization'') CHR '' '' 2 = [''Bearer'', t]"
    unfolding assms by (rule SplitN_Bearer)
  have ne: "GetHeader c ''Authorization'' \<noteq> []"
    unfolding assms by simp
  show ?thesis
    by (simp add: JWTAuthMiddleware_def Let_def parts ne split: sum.splits)
qed

lemma AuthMiddleware_refuses:
  assumes "take 7 (GetHeader c ''Authorization'') \<noteq> ''Bearer ''"
  shows "AuthMiddleware c =
     AbortWithStatusJSON StatusUnauthorized
       (H_code_message 401 (if GetHeader c ''Authorization'' = [] then msg_no_token
                            else msg_bad_auth_format))
       c (\<lambda>c. c)"
  using assms Bearer_shape [of "GetHeader c ''Authorization''"]
  by (auto simp: AuthMiddleware_def Let_def)

lemma AuthMiddleware_verifies:
  assumes "GetHeader c ''Authorization'' = ''Bearer '' @ t"
  shows "AuthMiddleware c =
     (case validateToken t of
        Inl err \<Rightarrow>
          AbortWithStatusJSON StatusUnauthorized (H_code_message 401 msg_bad_token)
            (c\<lparr>verified := verified c @ [t]\<rparr>) (\<lambda>c. c)
      | Inr user \<Rightarrow>
          CallNext
            (Set ''role'' (VString (tu_Role user))
               (Set ''username'' (VString (tu_Username user))
                  (Set ''user_id'' (VInt (tu_ID user)) (c\<lparr>verified := verified c @ [t]\<rparr>))))
            (\<lambda>c. c))"
proof -
  have parts: "SplitN (GetHeader c ''Authorization'') CHR '' '' 2 = [''Bearer'', t]"
    unfolding assms by (rule SplitN_Bearer)
  have ne: "GetHeader c ''Authorization'' \<noteq> []"
    unfolding assms by simp
  show ?thesis
    by (simp add: AuthMiddleware_def Let_def parts ne split: sum.splits)
qed

lemmas middleware_example_defs =
  handleHTTPRequest_def Next_def ctx_of_def trace_of_def IsAborted_def abortIndex_def
  AbortWithStatusJSON_def JSON_def Set_def Get_def GetHeader_def GetStringSlice_def Let_def
  with_authorization_def with_roles_def request_def

lemma verified_JSON [simp]: "verified (JSON code obj c) = verified c"
  by (simp add: JSON_def)

lemma verified_Set [simp]: "verified (Set key v c) = verified c"
  by (simp add: Set_def)

subsection \<open>The header is checked before the token\<close>

text \<open>
  Claim C6, as stated: a header that is not exactly two space-separated tokens stops the
  chain before the token check is invoked. It does not for \<^verbatim>\<open>Bearer a b\<close>, which has
  three: \<^verbatim>\<open>SplitN\<close> with the limit 2 cuts it into \<^verbatim>\<open>Bearer\<close> and \<^verbatim>\<open>a b\<close>, the test
  of the two parts passes, and both middlewares call the token check with \<^verbatim>\<open>a b\<close>;
  the 401 they answer is the one of a refused token.
\<close>

theorem malformed_header_stops_before_verification_counterexample:
  "SplitN ''Bearer a b'' CHR '' '' 2 = [''Bearer'', ''a b''] \<and>
   verified (ctx_of (handleHTTPRequest [AuthMiddleware] (with_authorization ''Bearer a b''))) =
     [''a b''] \<and>
   written (ctx_of (handleHTTPRequest [AuthMiddleware] (with_authorization ''Bearer a b''))) =
     [\<lparr>status = 401, body = H_code_message 401 msg_bad_token\<rparr>] \<and>
   verified (ctx_of (handleHTTPRequest [JWTAuthMiddleware no_decode 0]
     (with_authorization ''Bearer a b''))) = [''a b''] \<and>
   written (ctx_of (handleHTTPRequest [JWTAuthMiddleware no_decode 0]
     (with_authorization ''Bearer a b''))) =
     [\<lparr>status = 401, body = H_error msg_token_invalid\<rparr>]"
proof -
  have a: "handleHTTPRequest [AuthMiddleware] (with_authorization ''Bearer a b'') =
      (abortIndex + 1,
       JSON StatusUnauthorized (H_code_message 401 msg_bad_token)
         ((with_authorization ''Bearer a b'')\<lparr>verified := [''a b'']\<rparr>),
       [Enter 0, Abort 0, Resume 0])"
    by (simp add: middleware_example_defs Next_loop.simps AuthMiddleware_def SplitN_2
        validateToken_def validTokens_def)
  have j: "handleHTTPRequest [JWTAuthMiddleware no_decode 0] (with_authorization ''Bearer a b'') =
      (abortIndex + 1,
       JSON StatusUnauthorized (H_error msg_token_invalid)
         ((with_authorization ''Bearer a b'')\<lparr>verified := [''a b'']\<rparr>),
       [Enter 0, Abort 0, Resume 0])"
    by (simp add: middleware_example_defs Next_loop.simps JWTAuthMiddleware_def SplitN_2
        parseToken_def ParseWithClaims_def no_decode_def)
  show ?thesis
    unfolding a j
    by (simp add: ctx_of_def SplitN_2 JSON_def with_authorization_def request_def
        StatusUnauthorized_def)
qed

text \<open>
  Claim C6, amended. Whether the token check is invoked is decided by the first seven
  bytes of the header. If the \<^verbatim>\<open>Authorization\<close> header is absent or empty, or does not
  begin with \<^verbatim>\<open>Bearer\<close> and one space, \<open>JWTAuthMiddleware\<close> and \<open>AuthMiddleware\<close>
  abort the chain with a 401 response, no later handler runs, and the token check is
  not invoked. If the header is \<^verbatim>\<open>Bearer\<close>, one space and any text (empty, or with
  further spaces), the token check is invoked, with that text.
\<close>

theorem bearer_prefix_decides_verification:
  assumes "int (length rest) + 1 < abortIndex"
  shows "(take 7 (GetHeader c ''Authorization'') \<noteq> ''Bearer '' \<longrightarrow>
       handleHTTPRequest (JWTAuthMiddleware decode now # rest) c =
         (abortIndex + 1,
          JSON StatusUnauthorized
            (H_error (if GetHeader c ''Authorization'' = [] then msg_no_auth_header
                      else msg_bad_auth_header)) c,
          [Enter 0, Abort 0, Resume 0]) \<and>
       handleHTTPRequest (AuthMiddleware # rest) c =
         (abortIndex + 1,
          JSON StatusUnauthorized
            (H_code_message 401 (if GetHeader c ''Authorization'' = [] then msg_no_token
                                 else msg_bad_auth_format)) c,
          [Enter 0, Abort 0, Resume 0]) \<and>
       verified (ctx_of (handleHTTPRequest (JWTAuthMiddleware decode now # rest) c)) =
         verified c \<and>
       verified (ctx_of (handleHTTPRequest (AuthMiddleware # rest) c)) = verified c) \<and>
     (\<forall>t. GetHeader c ''Authorization'' = ''Bearer '' @ t \<longrightarrow>
       verified (ctx_of (handleHTTPRequest [JWTAuthMiddleware decode now] c)) =
         verified c @ [t] \<and>
       verified (ctx_of (handleHTTPRequest [AuthMiddleware] c)) = verified c @ [t])"
proof (intro conjI impI allI)
  assume bad: "take 7 (GetHeader c ''Authorization'') \<noteq> ''Bearer ''"
  have len: "int (length (JWTAuthMiddleware decode now # rest)) < abortIndex"
    "int (length (AuthMiddleware # rest)) < abortIndex"
    using assms by simp_all
  show j: "handleHTTPRequest (JWTAuthMiddleware decode now # rest) c =
      (abortIndex + 1,
       JSON StatusUnauthorized
         (H_error (if GetHeader c ''Authorization'' = [] then msg_no_auth_header
                   else msg_bad_auth_header)) c,
       [Enter 0, Abort 0, Resume 0])"
    using run_aborts_at_first [OF len(1), of c] JWTAuthMiddleware_refuses [OF bad, of decode now]
    by simp
  show a: "handleHTTPRequest (AuthMiddleware # rest) c =
      (abortIndex + 1,
       JSON StatusUnauthorized
         (H_code_message 401 (if GetHeader c ''Authorization'' = [] then msg_no_token
                              else msg_bad_auth_format)) c,
       [Enter 0, Abort 0, Resume 0])"
    using run_aborts_at_first [OF len(2), of c] AuthMiddleware_refuses [OF bad]
    by (simp add: AbortWithStatusJSON_def)
  show "verified (ctx_of (handleHTTPRequest (JWTAuthMiddleware decode now # rest) c)) =
      verified c"
    unfolding j by (simp add: ctx_of_def)
  show "verified (ctx_of (handleHTTPRequest (AuthMiddleware # rest) c)) = verified c"
    unfolding a by (simp add: ctx_of_def)
next
  fix t
  assume h: "GetHeader c ''Authorization'' = ''Bearer '' @ t"
  have one: "int (length [h']) < abortIndex" "[h'] \<noteq> []" for h' :: "Context HandlerFunc"
    by (simp_all add: abortIndex_def)
  have past: "Next_loop [h'] 1 c1 = (1, c1, [])" for h' :: "Context HandlerFunc" and c1
    by (simp add: Next_loop_past_end)
  show "verified (ctx_of (handleHTTPRequest [JWTAuthMiddleware decode now] c)) =
      verified c @ [t]"
  proof (cases "parseToken jwtSecret now (decode t)")
    case (Inl err)
    with JWTAuthMiddleware_verifies [OF h, of decode now]
    have "([JWTAuthMiddleware decode now] ! 0) c =
        Aborted
          (JSON StatusUnauthorized (H_error msg_token_invalid)
             (c\<lparr>verified := verified c @ [t]\<rparr>))
          (\<lambda>c. c)"
      by simp
    from run_aborts_at_first [OF one this] show ?thesis
      by (simp add: ctx_of_def)
  next
    case (Inr claims)
    with JWTAuthMiddleware_verifies [OF h, of decode now]
    have "([JWTAuthMiddleware decode now] ! 0) c =
        CallNext
          (Set ''role'' (VString (Role claims))
             (Set ''username'' (VString (claims_Username claims))
                (Set ''userID'' (VUint (UserID claims)) (c\<lparr>verified := verified c @ [t]\<rparr>))))
          (\<lambda>c. c)"
      by simp
    from run_proceeds_at_first [OF one this] show ?thesis
      by (simp add: ctx_of_def past)
  qed
  show "verified (ctx_of (handleHTTPRequest [AuthMiddleware] c)) = verified c @ [t]"
  proof (cases "validateToken t")
    case (Inl err)
    with AuthMiddleware_verifies [OF h]
    have "([AuthMiddleware] ! 0) c =
        Aborted (c\<lparr>verified := verified c @ [t]\<rparr>)
          (\<lambda>c. JSON StatusUnauthorized (H_code_message 401 msg_bad_token) c)"
      by (simp add: AbortWithStatusJSON_def)
    from run_aborts_at_first [OF one this] show ?thesis
      by (simp add: ctx_of_def)
  next
    case (Inr user)
    with AuthMiddleware_verifies [OF h]
    have "([AuthMiddleware] ! 0) c =
        CallNext
          (Set ''role'' (VString (tu_Role user))
             (Set ''username'' (VString (tu_Username user))
                (Set ''user_id'' (VInt (tu_ID user)) (c\<lparr>verified := verified c @ [t]\<rparr>))))
          (\<lambda>c. c)"
      by simp
    from run_proceeds_at_first [OF one this] show ?thesis
      by (simp add: ctx_of_def past)
  qed
qed

theorem bearer_prefix_decides_verification_witness:
  "handleHTTPRequest [AuthMiddleware, adminHandler] (with_authorization ''Basic dG9tOnRvbQ=='') =
     (abortIndex + 1,
      JSON StatusUnauthorized (H_code_message 401 msg_bad_auth_format)
        (with_authorization ''Basic dG9tOnRvbQ==''),
      [Enter 0, Abort 0, Resume 0]) \<and>
   verified (ctx_of (handleHTTPRequest [JWTAuthMiddleware no_decode 0, adminHandler]
     (with_authorization ''Basic dG9tOnRvbQ==''))) = [] \<and>
   verified (ctx_of (handleHTTPRequest [AuthMiddleware]
     (with_authorization ''Bearer valid-admin-token''))) = [''valid-admin-token'']"
proof -
  have len: "int (length [adminHandler]) + 1 < abortIndex"
    by (simp add: abortIndex_def)
  have h1: "GetHeader (with_authorization ''Basic dG9tOnRvbQ=='') ''Authorization'' =
      ''Basic dG9tOnRvbQ==''"
    by (simp add: GetHeader_def with_authorization_def request_def)
  have bad: "take 7 (GetHeader (with_authorization ''Basic dG9tOnRvbQ=='') ''Authorization'') \<noteq>
      ''Bearer ''"
    unfolding h1 by simp
  have ne: "GetHeader (with_authorization ''Basic dG9tOnRvbQ=='') ''Authorization'' \<noteq> []"
    unfolding h1 by simp
  have v0: "verified (with_authorization ''Basic dG9tOnRvbQ=='') = []"
    "verified (with_authorization ''Bearer valid-admin-token'') = []"
    by (simp_all add: with_authorization_def request_def)
  have h2: "GetHeader (with_authorization ''Bearer valid-admin-token'') ''Authorization'' =
      ''Bearer '' @ ''valid-admin-token''"
    by (simp add: GetHeader_def with_authorization_def request_def)
  from bearer_prefix_decides_verification [OF len,
      of "with_authorization ''Basic dG9tOnRvbQ==''" no_decode 0] bad ne v0
  have first: "handleHTTPRequest [AuthMiddleware, adminHandler]
        (with_authorization ''Basic dG9tOnRvbQ=='') =
      (abortIndex + 1,
       JSON StatusUnauthorized (H_code_message 401 msg_bad_auth_format)
         (with_authorization ''Basic dG9tOnRvbQ==''),
       [Enter 0, Abort 0, Resume 0])"
    and second: "verified (ctx_of (handleHTTPRequest [JWTAuthMiddleware no_decode 0, adminHandler]
        (with_authorization ''Basic dG9tOnRvbQ==''))) = []"
    by (simp_all add: ctx_of_def)
  from bearer_prefix_decides_verification [OF len,
      of "with_authorization ''Bearer valid-admin-token''" no_decode 0] h2 v0
  have third: "verified (ctx_of (handleHTTPRequest [AuthMiddleware]
      (with_authorization ''Bearer valid-admin-token''))) = [''valid-admin-token'']"
    by simp
  from first second third show ?thesis by simp
qed

subsection \<open>The role gate\<close>

lemma has_role_iff: "has_role required userRoles = (required \<in> set userRoles)"
  by (induction userRoles) auto

text \<open>The two loops find a pair exactly when the two lists share a role.\<close>

lemma some_role_iff: "some_role roles userRoles = (set roles \<inter> set userRoles \<noteq> {})"
  by (induction roles) (auto simp: has_role_iff)

lemma RequireRole_any_of:
  "RequireRole roles c =
     (if set roles \<inter> set (GetStringSlice c ''roles'') \<noteq> {} then CallNext c (\<lambda>c. c)
      else Aborted (JSON StatusForbidden (H_error msg_role_forbidden) c) (\<lambda>c. c))"
  by (simp add: RequireRole_def Let_def some_role_iff)





subsection \<open>From the claims of the token to the gate\<close>

lemma AuthRequired_verifies:
  assumes "GetHeader c ''Authorization'' = ''Bearer '' @ t"
  shows "AuthRequired decode now c =
     (case parseToken_routes jwtSecret now (decode t) of
        Inl err \<Rightarrow>
          Aborted
            (JSON StatusUnauthorized (H_error msg_token_bad) (c\<lparr>verified := verified c @ [t]\<rparr>))
            (\<lambda>c. c)
      | Inr claims \<Rightarrow>
          CallNext
            (Set ''permissions'' (VStrings (Permissions claims))
               (Set ''roles'' (VStrings (Roles claims))
                  (Set ''username'' (VString (route_Username claims))
                     (Set ''userID'' (VUint (route_UserID claims))
                        (c\<lparr>verified := verified c @ [t]\<rparr>)))))
            (\<lambda>c. c))"
proof -
  have parts: "SplitN (GetHeader c ''Authorization'') CHR '' '' 2 = [''Bearer'', t]"
    unfolding assms by (rule SplitN_Bearer)
  have ne: "GetHeader c ''Authorization'' \<noteq> []"
    unfolding assms by simp
  show ?thesis
    by (simp add: AuthRequired_def Let_def parts ne split: sum.splits)
qed

text \<open>
  The route \<^verbatim>\<open>admin.Use(AuthRequired(), RequireRole(...))\<close>: for a request whose token
  is accepted, the handler is invoked exactly when one of the roles in the claims of the
  token is an allowed role.
\<close>

lemma protected_route_grants_iff_role_in_claims:
  assumes header: "GetHeader c ''Authorization'' = ''Bearer '' @ t"
    and parsed: "parseToken_routes jwtSecret now (decode t) = Inr claims"
  shows "(Enter 2 \<in> set (trace_of
        (handleHTTPRequest [AuthRequired decode now, RequireRole roles, h] c))) =
     (set roles \<inter> set (Roles claims) \<noteq> {})"
proof -
  let ?hs = "[AuthRequired decode now, RequireRole roles, h]"
  let ?c1 = "Set ''permissions'' (VStrings (Permissions claims))
               (Set ''roles'' (VStrings (Roles claims))
                  (Set ''username'' (VString (route_Username claims))
                     (Set ''userID'' (VUint (route_UserID claims))
                        (c\<lparr>verified := verified c @ [t]\<rparr>))))"
  have len: "int (length ?hs) < abortIndex" "?hs \<noteq> []"
    by (simp_all add: abortIndex_def)
  have first: "(?hs ! 0) c = CallNext ?c1 (\<lambda>c. c)"
    using AuthRequired_verifies [OF header, of decode now] parsed by simp
  have run: "trace_of (handleHTTPRequest ?hs c) =
      Enter 0 # Proceed 0 # trace_of (Next_loop ?hs 1 ?c1) @ [Resume 0]"
    using run_proceeds_at_first [OF len first]
    by (simp add: trace_of_def split: prod.splits)
  have stored: "GetStringSlice ?c1 ''roles'' = Roles claims"
    by (simp add: GetStringSlice_def Set_def)
  have g1: "(0::int) \<le> 1" "1 < int (length ?hs)" "int (length ?hs) < abortIndex"
    by (simp_all add: abortIndex_def)
  show ?thesis
  proof (cases "set roles \<inter> set (Roles claims) = {}")
    case True
    then have "(?hs ! nat 1) ?c1 =
        Aborted (JSON StatusForbidden (H_error msg_role_forbidden) ?c1) (\<lambda>c. c)"
      by (simp add: RequireRole_any_of stored)
    from Next_loop_Aborted [OF g1 this]
    have "trace_of (Next_loop ?hs 1 ?c1) = [Enter 1, Abort 1, Resume 1]"
      by (simp add: trace_of_def)
    with run True show ?thesis by simp
  next
    case False
    then have "(?hs ! nat 1) ?c1 = CallNext ?c1 (\<lambda>c. c)"
      by (simp add: RequireRole_any_of stored)
    from Next_loop_CallNext [OF g1 this]
    have inner: "trace_of (Next_loop ?hs 1 ?c1) =
        Enter 1 # Proceed 1 # trace_of (Next_loop ?hs 2 ?c1) @ [Resume 1]"
      by (simp add: trace_of_def split: prod.splits)
    have "Enter (nat 2) \<in> set (trace_of (Next_loop ?hs 2 ?c1))"
      by (rule Next_loop_enters) (simp_all add: abortIndex_def)
    with run inner False show ?thesis by simp
  qed
qed

end
